theory Spec2Isabelle
  imports
    Main
    "HOL-Library.Char_ord"
    "HOL-Library.List_Lexorder"
    "HOL-Library.Option_ord"
    "HOL-Library.Product_Lexorder"
    "HOL-Library.Multiset"
begin

section \<open>Enrollment validation: the reconciliation core\<close>

text \<open>
  This theory embeds the core of \<^verbatim>\<open>edx/analytics/tasks/enrollment_validation.py\<close>:
  the class \<^verbatim>\<open>ValidateEnrollmentForEvents\<close> with its timestamp arithmetic
  (\<^verbatim>\<open>_add_microseconds\<close>, \<^verbatim>\<open>_get_fake_timestamp\<close>), the transition rules
  (\<^verbatim>\<open>check_transition\<close>) and the backward scan (\<^verbatim>\<open>missing_enrolled\<close>).

  The source is Python 2 (the mapper calls \<^verbatim>\<open>unicode\<close>): \<^verbatim>\<open>None\<close> compares below every
  string and below both booleans, and \<^verbatim>\<open>False < True\<close>. The orders of
  \<^verbatim>\<open>Option_ord\<close>, \<^verbatim>\<open>List_Lexorder\<close>, \<^verbatim>\<open>Char_ord\<close> and \<^verbatim>\<open>Product_Lexorder\<close> of the
  library are exactly these comparisons on \<open>'a option\<close>, strings and tuples.
\<close>

subsection \<open>Exceptions\<close>

datatype error = AttributeError | ValueError | OverflowError

subsection \<open>Event type constants\<close>

definition DEACTIVATED :: string where
  "DEACTIVATED = ''edx.course.enrollment.deactivated''"

definition ACTIVATED :: string where
  "ACTIVATED = ''edx.course.enrollment.activated''"

definition VALIDATED :: string where
  "VALIDATED = ''edx.course.enrollment.validated''"

definition SENTINEL :: string where
  "SENTINEL = ''edx.course.enrollment.sentinel''"

subsection \<open>Python string primitives used by the timestamp arithmetic\<close>

definition is_digit :: "char \<Rightarrow> bool" where
  "is_digit c = (CHR ''0'' \<le> c \<and> c \<le> CHR ''9'')"

definition digit_val :: "char \<Rightarrow> int" where
  "digit_val c = of_char c - 48"

definition digit_char :: "int \<Rightarrow> char" where
  "digit_char d = char_of (48 + d)"

text \<open>The value of a string of decimal digits, most significant digit first.\<close>

definition digits_val :: "string \<Rightarrow> int" where
  "digits_val s = foldl (\<lambda>n c. 10 * n + digit_val c) 0 s"

text \<open>
  \<^verbatim>\<open>str(n)\<close> for an integer: decimal digits, with a minus sign when negative.
  \<open>dec_digits\<close> gives the digits of a number that is not negative.
\<close>

function dec_digits :: "int \<Rightarrow> string" where
  "dec_digits n =
     (if n < 10 then [digit_char n] else dec_digits (n div 10) @ [digit_char (n mod 10)])"
  by pat_completeness auto
termination
  by (relation "measure nat") auto

declare dec_digits.simps [simp del]

definition str_int :: "int \<Rightarrow> string" where
  "str_int i = (if i < 0 then CHR ''-'' # dec_digits (- i) else dec_digits i)"

text \<open>\<^verbatim>\<open>s.zfill(width)\<close>: zeros are inserted on the left, after a leading sign if there is one.\<close>

definition zfill :: "nat \<Rightarrow> string \<Rightarrow> string" where
  "zfill width s =
     (let pad = replicate (width - length s) (CHR ''0'')
      in case s of
           [] \<Rightarrow> pad
         | c # rest \<Rightarrow> if c = CHR ''+'' \<or> c = CHR ''-'' then c # pad @ rest else pad @ s)"

text \<open>\<^verbatim>\<open>s.partition(sep)\<close> for a one-character separator: split at its first occurrence.\<close>

definition partition_str :: "char \<Rightarrow> string \<Rightarrow> string \<times> string \<times> string" where
  "partition_str sep s =
     (case dropWhile (\<lambda>c. c \<noteq> sep) s of
        [] \<Rightarrow> (s, [], [])
      | _ # tail \<Rightarrow> (takeWhile (\<lambda>c. c \<noteq> sep) s, [sep], tail))"

definition is_space :: "char \<Rightarrow> bool" where
  "is_space c = (c = CHR '' '' \<or> c = CHR 0x09 \<or> c = CHR 0x0A \<or> c = CHR 0x0B
      \<or> c = CHR 0x0C \<or> c = CHR 0x0D)"

definition strip :: "string \<Rightarrow> string" where
  "strip s = rev (dropWhile is_space (rev (dropWhile is_space s)))"

text \<open>
  \<^verbatim>\<open>int(s)\<close> on a string: surrounding whitespace, an optional sign, then one or more decimal
  digits; anything else raises \<^verbatim>\<open>ValueError\<close>.
\<close>

definition py_int :: "string \<Rightarrow> error + int" where
  "py_int s =
     (let t = strip s;
          neg = (t \<noteq> [] \<and> hd t = CHR ''-'');
          ds = (if t \<noteq> [] \<and> (hd t = CHR ''-'' \<or> hd t = CHR ''+'') then tl t else t)
      in if ds \<noteq> [] \<and> list_all is_digit ds
         then Inr (if neg then - digits_val ds else digits_val ds)
         else Inl ValueError)"

subsection \<open>The standard library's \<^verbatim>\<open>datetime\<close>, as far as the source uses it\<close>

text \<open>
  \<^verbatim>\<open>_add_microseconds\<close> falls back on \<^verbatim>\<open>datetime.strptime\<close>, \<^verbatim>\<open>datetime + timedelta\<close> and
  \<^verbatim>\<open>isoformat\<close> when the microsecond field carries. These belong to Python, not to the
  repository; they are modelled here after their documented behaviour: a naive datetime of the
  proleptic Gregorian calendar with years 1 to 9999.
\<close>

record datetime =
  year :: int
  month :: int
  day :: int
  hour :: int
  minute :: int
  second :: int
  microsecond :: int

definition is_leap :: "int \<Rightarrow> bool" where
  "is_leap y = (y mod 4 = 0 \<and> (y mod 100 \<noteq> 0 \<or> y mod 400 = 0))"

definition days_in_month :: "int \<Rightarrow> int \<Rightarrow> int" where
  "days_in_month y m =
     (if m = 2 then (if is_leap y then 29 else 28)
      else if m = 4 \<or> m = 6 \<or> m = 9 \<or> m = 11 then 30 else 31)"

definition valid_date :: "int \<Rightarrow> int \<Rightarrow> int \<Rightarrow> bool" where
  "valid_date y m d =
     (1 \<le> y \<and> y \<le> 9999 \<and> 1 \<le> m \<and> m \<le> 12 \<and> 1 \<le> d \<and> d \<le> days_in_month y m)"

definition valid_datetime :: "datetime \<Rightarrow> bool" where
  "valid_datetime dt =
     (valid_date (year dt) (month dt) (day dt) \<and> 0 \<le> hour dt \<and> hour dt < 24
      \<and> 0 \<le> minute dt \<and> minute dt < 60 \<and> 0 \<le> second dt \<and> second dt < 60
      \<and> 0 \<le> microsecond dt \<and> microsecond dt < 1000000)"

text \<open>
  \<^verbatim>\<open>strptime(s, '%Y-%m-%dT%H:%M:%S.%f')\<close>. The directives match digits only (\<^verbatim>\<open>%d\<close> also a
  space-padded day) and the literals between them are not digits, so the regular expression
  of \<^verbatim>\<open>_strptime\<close> matches exactly when the string splits at the separators into fields of
  the right shape: \<^verbatim>\<open>%Y\<close> four digits; \<^verbatim>\<open>%m\<close>, \<^verbatim>\<open>%d\<close>, \<^verbatim>\<open>%H\<close>, \<^verbatim>\<open>%M\<close>, \<^verbatim>\<open>%S\<close> one or two
  digits within 1..12, 1..31, 0..23, 0..59, 0..61; \<^verbatim>\<open>%f\<close> one to six digits, padded with
  zeros on the right. The expression is compiled ignoring case, so the literal \<^verbatim>\<open>T\<close> also
  matches \<^verbatim>\<open>t\<close>. The \<^verbatim>\<open>datetime\<close> constructor then rejects an impossible date and a second
  above 59. Every failure is a \<^verbatim>\<open>ValueError\<close>.
\<close>

definition split_on :: "(char \<Rightarrow> bool) \<Rightarrow> string \<Rightarrow> (string \<times> string) option" where
  "split_on P s =
     (case dropWhile (\<lambda>c. \<not> P c) s of
        [] \<Rightarrow> None
      | _ # rest \<Rightarrow> Some (takeWhile (\<lambda>c. \<not> P c) s, rest))"

definition num_field :: "int \<Rightarrow> int \<Rightarrow> string \<Rightarrow> int option" where
  "num_field lo hi s =
     (if s \<noteq> [] \<and> length s \<le> 2 \<and> list_all is_digit s \<and> lo \<le> digits_val s \<and> digits_val s \<le> hi
      then Some (digits_val s) else None)"

definition year_field :: "string \<Rightarrow> int option" where
  "year_field s = (if length s = 4 \<and> list_all is_digit s then Some (digits_val s) else None)"

definition day_field :: "string \<Rightarrow> int option" where
  "day_field s =
     (case s of
        [a, b] \<Rightarrow> if a = CHR '' '' \<and> CHR ''1'' \<le> b \<and> b \<le> CHR ''9'' then Some (digit_val b)
                  else num_field 1 31 s
      | _ \<Rightarrow> num_field 1 31 s)"

definition fraction_field :: "string \<Rightarrow> int option" where
  "fraction_field s =
     (if s \<noteq> [] \<and> length s \<le> 6 \<and> list_all is_digit s
      then Some (digits_val (s @ replicate (6 - length s) (CHR ''0''))) else None)"

definition split_fields ::
  "string \<Rightarrow> (string \<times> string \<times> string \<times> string \<times> string \<times> string \<times> string) option" where
  "split_fields s =
     Option.bind (split_on (\<lambda>c. c = CHR ''-'') s) (\<lambda>(fY, r1).
     Option.bind (split_on (\<lambda>c. c = CHR ''-'') r1) (\<lambda>(fm, r2).
     Option.bind (split_on (\<lambda>c. c = CHR ''T'' \<or> c = CHR ''t'') r2) (\<lambda>(fd, r3).
     Option.bind (split_on (\<lambda>c. c = CHR '':'') r3) (\<lambda>(fH, r4).
     Option.bind (split_on (\<lambda>c. c = CHR '':'') r4) (\<lambda>(fM, r5).
     Option.bind (split_on (\<lambda>c. c = CHR ''.'') r5) (\<lambda>(fS, ff).
       Some (fY, fm, fd, fH, fM, fS, ff)))))))"

definition parse_fields :: "string \<Rightarrow> datetime option" where
  "parse_fields s =
     Option.bind (split_fields s) (\<lambda>(fY, fm, fd, fH, fM, fS, ff).
     Option.bind (year_field fY) (\<lambda>y.
     Option.bind (num_field 1 12 fm) (\<lambda>m.
     Option.bind (day_field fd) (\<lambda>d.
     Option.bind (num_field 0 23 fH) (\<lambda>H.
     Option.bind (num_field 0 59 fM) (\<lambda>M.
     Option.bind (num_field 0 61 fS) (\<lambda>S.
     Option.bind (fraction_field ff) (\<lambda>f.
       Some \<lparr>year = y, month = m, day = d, hour = H, minute = M, second = S,
             microsecond = f\<rparr>))))))))"

definition strptime :: "string \<Rightarrow> error + datetime" where
  "strptime s =
     (case parse_fields s of
        None \<Rightarrow> Inl ValueError
      | Some dt \<Rightarrow> if valid_datetime dt then Inr dt else Inl ValueError)"

text \<open>
  \<^verbatim>\<open>dt + timedelta(microseconds=n)\<close>: the time of day moves by \<open>n\<close> microseconds and the date
  by the whole days that carries; a date outside years 1..9999 is an \<^verbatim>\<open>OverflowError\<close>.
  The date moves one calendar day at a time.
\<close>

type_synonym date = "int \<times> int \<times> int"

definition next_day :: "date \<Rightarrow> date option" where
  "next_day ymd =
     (case ymd of (y, m, d) \<Rightarrow>
        if d < days_in_month y m then Some (y, m, d + 1)
        else if m < 12 then Some (y, m + 1, 1)
        else if y < 9999 then Some (y + 1, 1, 1)
        else None)"

definition prev_day :: "date \<Rightarrow> date option" where
  "prev_day ymd =
     (case ymd of (y, m, d) \<Rightarrow>
        if 1 < d then Some (y, m, d - 1)
        else if 1 < m then Some (y, m - 1, days_in_month y (m - 1))
        else if 1 < y then Some (y - 1, 12, 31)
        else None)"

fun iterate_opt :: "nat \<Rightarrow> ('a \<Rightarrow> 'a option) \<Rightarrow> 'a \<Rightarrow> 'a option" where
  "iterate_opt 0 f x = Some x"
| "iterate_opt (Suc n) f x = (case f x of None \<Rightarrow> None | Some y \<Rightarrow> iterate_opt n f y)"

definition add_days :: "date \<Rightarrow> int \<Rightarrow> date option" where
  "add_days ymd n =
     (if 0 \<le> n then iterate_opt (nat n) next_day ymd else iterate_opt (nat (- n)) prev_day ymd)"

definition datetime_add :: "datetime \<Rightarrow> int \<Rightarrow> error + datetime" where
  "datetime_add dt us =
     (let tod = ((hour dt * 60 + minute dt) * 60 + second dt) * 1000000 + microsecond dt;
          total = tod + us;
          r = total mod 86400000000
      in case add_days (year dt, month dt, day dt) (total div 86400000000) of
           None \<Rightarrow> Inl OverflowError
         | Some (y, m, d) \<Rightarrow>
             Inr \<lparr>year = y, month = m, day = d,
                  hour = r div 3600000000,
                  minute = (r div 60000000) mod 60,
                  second = (r div 1000000) mod 60,
                  microsecond = r mod 1000000\<rparr>)"

text \<open>
  \<^verbatim>\<open>isoformat()\<close>: \<^verbatim>\<open>YYYY-MM-DDTHH:MM:SS\<close>, followed by \<^verbatim>\<open>.ffffff\<close> only when the microsecond
  field is not zero.
\<close>

definition fmt_d :: "nat \<Rightarrow> int \<Rightarrow> string" where
  "fmt_d width n = zfill width (str_int n)"

definition iso_seconds :: "datetime \<Rightarrow> string" where
  "iso_seconds dt =
     fmt_d 4 (year dt) @ ''-'' @ fmt_d 2 (month dt) @ ''-'' @ fmt_d 2 (day dt) @ ''T''
       @ fmt_d 2 (hour dt) @ '':'' @ fmt_d 2 (minute dt) @ '':'' @ fmt_d 2 (second dt)"

definition isoformat :: "datetime \<Rightarrow> string" where
  "isoformat dt =
     (if microsecond dt = 0 then iso_seconds dt
      else iso_seconds dt @ ''.'' @ fmt_d 6 (microsecond dt))"

subsection \<open>Timestamp arithmetic\<close>

text \<open>
  \<^verbatim>\<open>_add_microseconds(timestamp, microseconds)\<close>: the fast path edits the fractional part in
  place; on a carry the timestamp goes through \<^verbatim>\<open>datetime\<close>.
\<close>

definition add_microseconds :: "string \<Rightarrow> int \<Rightarrow> error + string" where
  "add_microseconds timestamp microseconds =
     (case partition_str (CHR ''.'') timestamp of (timestamp_base, period, microsec_base0) \<Rightarrow>
      let microsec_base = (if microsec_base0 = [] then ''0'' else microsec_base0);
          timestamp1 = (if microsec_base0 = [] then timestamp @ ''.000000'' else timestamp)
      in case py_int microsec_base of
           Inl e \<Rightarrow> Inl e
         | Inr base \<Rightarrow>
             let microsec_int = base + microseconds
             in if 0 \<le> microsec_int \<and> microsec_int < 1000000
                then Inr (timestamp_base @ ''.'' @ zfill 6 (str_int microsec_int))
                else case strptime timestamp1 of
                       Inl e \<Rightarrow> Inl e
                     | Inr parsed_timestamp \<Rightarrow>
                         (case datetime_add parsed_timestamp microseconds of
                            Inl e \<Rightarrow> Inl e
                          | Inr moved \<Rightarrow>
                              let newtimestamp = isoformat moved
                              in Inr (if CHR ''.'' \<in> set newtimestamp then newtimestamp
                                      else newtimestamp @ ''.000000'')))"

text \<open>Python truth values of the optional fields: \<^verbatim>\<open>None\<close> and the empty string are false.\<close>

definition truthy_str :: "string option \<Rightarrow> bool" where
  "truthy_str x = (case x of None \<Rightarrow> False | Some s \<Rightarrow> s \<noteq> [])"

definition truthy_bool :: "bool option \<Rightarrow> bool" where
  "truthy_bool x = (case x of None \<Rightarrow> False | Some b \<Rightarrow> b)"

text \<open>
  \<^verbatim>\<open>_get_fake_timestamp(after, before)\<close>, the spec's \<^verbatim>\<open>pick_gap_timestamp\<close>. With neither bound
  the call \<^verbatim>\<open>before.partition\<close> on \<^verbatim>\<open>None\<close> raises \<^verbatim>\<open>AttributeError\<close>.
\<close>

definition get_fake_timestamp :: "string option \<Rightarrow> string option \<Rightarrow> error + string" where
  "get_fake_timestamp after_bound before_bound =
     (if truthy_str after_bound then add_microseconds (the after_bound) 1
      else case before_bound of
             None \<Rightarrow> Inl AttributeError
           | Some b \<Rightarrow> add_microseconds b (- 1))"

subsection \<open>Events and the validator object\<close>

text \<open>
  \<^verbatim>\<open>EnrollmentEvent\<close>. The timestamp is optional because the sentinel has none; \<^verbatim>\<open>is_active\<close> and
  \<^verbatim>\<open>created\<close> are \<^verbatim>\<open>None\<close> unless a validation event supplied them.
\<close>

record enrollment_event =
  timestamp :: "string option"
  event_type :: string
  is_active :: "bool option"
  created :: "string option"

text \<open>The tuples the mapper yields: \<^verbatim>\<open>(timestamp, event_type, is_active, created)\<close>.\<close>

type_synonym event_tuple = "string \<times> string \<times> bool option \<times> string option"

text \<open>The two calls of \<^verbatim>\<open>log.error\<close>, kept as data so that diagnostics can be told from output.\<close>

datatype log_record =
  DifferentCreationTimestamp "string option" "string option"
| NoValidationEventFound int string

text \<open>
  \<^verbatim>\<open>ValidateEnrollmentForEvents\<close>. The field \<open>generate_output\<close> is the bound method chosen by
  \<^verbatim>\<open>event_output\<close> (\<^verbatim>\<open>create_tuple\<close> or \<^verbatim>\<open>synthetic_event\<close>); it receives
  \<^verbatim>\<open>(timestamp, event_type, reason, after, before)\<close>. The field \<^verbatim>\<open>interval\<close> is stored by the
  constructor and never read, and is left out. \<open>log_errors\<close> collects what the module logger
  is sent.
\<close>

record 'o validate_enrollment_for_events =
  course_id :: string
  user_id :: int
  creation_timestamp :: "string option"
  require_validation :: bool
  generate_before :: bool
  lower_bound_date_string :: string
  generate_output ::
    "string option \<Rightarrow> string \<Rightarrow> string \<Rightarrow> string option \<Rightarrow> string option \<Rightarrow> 'o"
  sorted_events :: "enrollment_event list"
  log_errors :: "log_record list"

definition log_error ::
  "log_record \<Rightarrow> 'o validate_enrollment_for_events \<Rightarrow> 'o validate_enrollment_for_events" where
  "log_error r self = self\<lparr>log_errors := log_errors self @ [r]\<rparr>"

text \<open>
  \<^verbatim>\<open>create_tuple\<close>. The helper \<^verbatim>\<open>eventlog.timestamp_to_datestamp\<close> is not among the sources and
  is a parameter here.
\<close>

definition create_tuple ::
  "(string option \<Rightarrow> 'd) \<Rightarrow> string \<Rightarrow> int \<Rightarrow> string option \<Rightarrow> string \<Rightarrow> string
    \<Rightarrow> string option \<Rightarrow> string option
    \<Rightarrow> 'd \<times> (string \<times> int \<times> string option \<times> string \<times> string \<times> string option \<times> string option)" where
  "create_tuple timestamp_to_datestamp cid uid ts etype reason after_bound before_bound =
     (timestamp_to_datestamp ts, (cid, uid, ts, etype, reason, after_bound, before_bound))"

subsection \<open>Reason strings\<close>

definition STATE_MAP :: "string \<rightharpoonup> string" where
  "STATE_MAP = map_of [(VALIDATED, ''validate''), (ACTIVATED, ''activate''),
     (DEACTIVATED, ''deactivate''), (SENTINEL, ''start'')]"

definition get_state_string :: "enrollment_event \<Rightarrow> string" where
  "get_state_string event =
     (let state_name = (case STATE_MAP (event_type event) of None \<Rightarrow> ''unknown'' | Some n \<Rightarrow> n)
      in if event_type event = VALIDATED
         then state_name @ (if truthy_bool (is_active event) then ''(active)'' else ''(inactive)'')
         else state_name)"

definition get_transition_string :: "enrollment_event \<Rightarrow> enrollment_event \<Rightarrow> string" where
  "get_transition_string prev_event curr_event =
     get_state_string prev_event @ '' => '' @ get_state_string curr_event"

subsection \<open>The transition rules\<close>

text \<open>
  \<^verbatim>\<open>check_transition(prev_event, curr_event)\<close>. The result is an exception, or the returned
  value together with the object after the call. The returned value is \<open>None\<close> where the
  source falls off the end of the function and \<open>Some\<close> of the list it returns otherwise.
  The gap timestamp is computed before any rule is looked at, so its exceptions come first.
\<close>

definition check_validated ::
  "'o validate_enrollment_for_events \<Rightarrow> enrollment_event \<Rightarrow> enrollment_event \<Rightarrow> string
    \<Rightarrow> error + ('o list option \<times> 'o validate_enrollment_for_events)" where
  "check_validated self0 prev_event curr_event fake_timestamp =
     (let prev_type = event_type prev_event;
          prev = timestamp prev_event;
          curr = timestamp curr_event;
          reason = get_transition_string prev_event curr_event;
          self1 = (if truthy_str (creation_timestamp self0)
                      \<and> created curr_event \<noteq> creation_timestamp self0
                   then log_error (DifferentCreationTimestamp (created curr_event)
                          (creation_timestamp self0)) self0
                   else self0);
          self = self1\<lparr>creation_timestamp := created curr_event\<rparr>
      in if prev_type = VALIDATED then
           (if truthy_bool (is_active curr_event) \<and> \<not> truthy_bool (is_active prev_event)
            then Inr (Some [generate_output self (Some fake_timestamp) ACTIVATED reason prev curr],
                      self)
            else if \<not> truthy_bool (is_active curr_event) \<and> truthy_bool (is_active prev_event)
            then Inr (Some [generate_output self (Some fake_timestamp) DEACTIVATED reason prev curr],
                      self)
            else Inr (None, self))
         else if prev_type = ACTIVATED then
           (if \<not> truthy_bool (is_active curr_event)
            then Inr (Some [generate_output self (Some fake_timestamp) DEACTIVATED reason prev curr],
                      self)
            else Inr (None, self))
         else if prev_type = DEACTIVATED then
           (if truthy_bool (is_active curr_event)
            then Inr (Some [generate_output self (Some fake_timestamp) ACTIVATED reason prev curr],
                      self)
            else Inr (None, self))
         else if prev_type = SENTINEL then
           (if \<not> generate_before self
                \<and> creation_timestamp self < Some (lower_bound_date_string self)
            then Inr (None, self)
            else if truthy_bool (is_active curr_event)
            then Inr (Some [generate_output self (creation_timestamp self) ACTIVATED reason
                              (creation_timestamp self) curr], self)
            else (case get_fake_timestamp (creation_timestamp self) curr of
                    Inl e \<Rightarrow> Inl e
                  | Inr timestamp2 \<Rightarrow>
                      Inr (Some [generate_output self (creation_timestamp self) ACTIVATED reason
                                   (creation_timestamp self) curr,
                                 generate_output self (Some timestamp2) DEACTIVATED reason
                                   (creation_timestamp self) curr], self)))
         else Inr (None, self))"

definition check_activated ::
  "'o validate_enrollment_for_events \<Rightarrow> enrollment_event \<Rightarrow> enrollment_event \<Rightarrow> string
    \<Rightarrow> error + ('o list option \<times> 'o validate_enrollment_for_events)" where
  "check_activated self prev_event curr_event fake_timestamp =
     (let prev_type = event_type prev_event;
          prev = timestamp prev_event;
          curr = timestamp curr_event;
          reason = get_transition_string prev_event curr_event
      in if prev_type = VALIDATED then
           (if truthy_bool (is_active prev_event)
            then Inr (Some [generate_output self (Some fake_timestamp) DEACTIVATED reason prev curr],
                      self)
            else Inr (None, self))
         else if prev_type = ACTIVATED then
           Inr (Some [generate_output self (Some fake_timestamp) DEACTIVATED reason prev curr], self)
         else Inr (None, self))"

definition check_deactivated ::
  "'o validate_enrollment_for_events \<Rightarrow> enrollment_event \<Rightarrow> enrollment_event \<Rightarrow> string
    \<Rightarrow> error + ('o list option \<times> 'o validate_enrollment_for_events)" where
  "check_deactivated self prev_event curr_event fake_timestamp =
     (let prev_type = event_type prev_event;
          prev = timestamp prev_event;
          curr = timestamp curr_event;
          reason = get_transition_string prev_event curr_event
      in if prev_type = VALIDATED then
           (if \<not> truthy_bool (is_active prev_event)
            then Inr (Some [generate_output self (Some fake_timestamp) ACTIVATED reason prev curr],
                      self)
            else Inr (None, self))
         else if prev_type = ACTIVATED then Inr (None, self)
         else if prev_type = DEACTIVATED then
           Inr (Some [generate_output self (Some fake_timestamp) ACTIVATED reason prev curr], self)
         else if prev_type = SENTINEL then
           (if truthy_str (creation_timestamp self)
                \<and> (generate_before self
                     \<or> Some (lower_bound_date_string self) \<le> creation_timestamp self)
            then Inr (Some [generate_output self (creation_timestamp self) ACTIVATED reason
                              (creation_timestamp self) curr], self)
            else if generate_before self
            then (case get_fake_timestamp None curr of
                    Inl e \<Rightarrow> Inl e
                  | Inr timestamp2 \<Rightarrow>
                      Inr (Some [generate_output self (Some timestamp2) ACTIVATED reason None curr],
                           self))
            else Inr (None, self))
         else Inr (None, self))"

definition check_transition ::
  "'o validate_enrollment_for_events \<Rightarrow> enrollment_event \<Rightarrow> enrollment_event
    \<Rightarrow> error + ('o list option \<times> 'o validate_enrollment_for_events)" where
  "check_transition self prev_event curr_event =
     (case get_fake_timestamp (timestamp prev_event) (timestamp curr_event) of
        Inl e \<Rightarrow> Inl e
      | Inr fake_timestamp \<Rightarrow>
          if event_type curr_event = VALIDATED
          then check_validated self prev_event curr_event fake_timestamp
          else if event_type curr_event = ACTIVATED
          then check_activated self prev_event curr_event fake_timestamp
          else if event_type curr_event = DEACTIVATED
          then check_deactivated self prev_event curr_event fake_timestamp
          else Inr (None, self))"

subsection \<open>The backward scan\<close>

text \<open>
  The loop of \<^verbatim>\<open>missing_enrolled\<close> over \<^verbatim>\<open>index\<close>: the list argument is
  \<^verbatim>\<open>sorted_events[index:]\<close>, whose first two elements are \<^verbatim>\<open>event\<close> and \<^verbatim>\<open>prev_event\<close>; the
  loop ends when only the last element is left. \<^verbatim>\<open>if missing_events:\<close> skips both \<^verbatim>\<open>None\<close>
  and the empty list.
\<close>

fun scan_events ::
  "'o validate_enrollment_for_events \<Rightarrow> enrollment_event list \<Rightarrow> bool \<Rightarrow> 'o list
    \<Rightarrow> error + ('o list \<times> 'o validate_enrollment_for_events)" where
  "scan_events self (event # prev_event # rest) validation_found all_missing_events =
     (let found = (validation_found \<or> event_type event = VALIDATED)
      in case check_transition self prev_event event of
           Inl e \<Rightarrow> Inl e
         | Inr (missing_events, self1) \<Rightarrow>
             let collected = (case missing_events of
                                None \<Rightarrow> all_missing_events
                              | Some ms \<Rightarrow> all_missing_events @ ms);
                 self2 = (if require_validation self1 \<and> \<not> found
                          then log_error (NoValidationEventFound (user_id self1) (course_id self1))
                                 self1
                          else self1)
             in scan_events self2 (prev_event # rest) found collected)"
| "scan_events self [e] validation_found all_missing_events = Inr (all_missing_events, self)"
| "scan_events self [] validation_found all_missing_events = Inr (all_missing_events, self)"

definition missing_enrolled ::
  "'o validate_enrollment_for_events \<Rightarrow> error + ('o list \<times> 'o validate_enrollment_for_events)" where
  "missing_enrolled self = scan_events self (sorted_events self) False []"

subsection \<open>Construction\<close>

text \<open>
  \<^verbatim>\<open>sorted(events, reverse=True)\<close>: Python reverses the list, sorts it stably in ascending
  order and reverses the result. The order on the tuples is the lexicographic one.
\<close>

definition sorted_reverse :: "'a::linorder list \<Rightarrow> 'a list" where
  "sorted_reverse xs = rev (sort (rev xs))"

definition make_event :: "event_tuple \<Rightarrow> enrollment_event" where
  "make_event t =
     (case t of (ts, etype, active, cr) \<Rightarrow>
        \<lparr>timestamp = Some ts, event_type = etype, is_active = active, created = cr\<rparr>)"

definition initial_state :: enrollment_event where
  "initial_state =
     \<lparr>timestamp = None, event_type = SENTINEL, is_active = Some False, created = None\<rparr>"

text \<open>
  \<^verbatim>\<open>__init__\<close>, with the emitter that \<^verbatim>\<open>event_output\<close> selects passed in directly.
\<close>

definition ValidateEnrollmentForEvents ::
  "(string option \<Rightarrow> string \<Rightarrow> string \<Rightarrow> string option \<Rightarrow> string option \<Rightarrow> 'o)
    \<Rightarrow> string \<Rightarrow> int \<Rightarrow> event_tuple list \<Rightarrow> bool \<Rightarrow> bool \<Rightarrow> string
    \<Rightarrow> 'o validate_enrollment_for_events" where
  "ValidateEnrollmentForEvents emitter cid uid events req_validation gen_before lower_bound =
     \<lparr>course_id = cid, user_id = uid, creation_timestamp = None,
      require_validation = req_validation, generate_before = gen_before,
      lower_bound_date_string = lower_bound, generate_output = emitter,
      sorted_events = map make_event (sorted_reverse events) @ [initial_state],
      log_errors = []\<rparr>"

text \<open>The reducer's use of the class: construct, then \<^verbatim>\<open>missing_enrolled\<close>.\<close>

definition reconcile ::
  "(string option \<Rightarrow> string \<Rightarrow> string \<Rightarrow> string option \<Rightarrow> string option \<Rightarrow> 'o)
    \<Rightarrow> string \<Rightarrow> int \<Rightarrow> event_tuple list \<Rightarrow> bool \<Rightarrow> bool \<Rightarrow> string
    \<Rightarrow> error + ('o list \<times> 'o validate_enrollment_for_events)" where
  "reconcile emitter cid uid events req_validation gen_before lower_bound =
     missing_enrolled
       (ValidateEnrollmentForEvents emitter cid uid events req_validation gen_before lower_bound)"

subsection \<open>A concrete emitter for examples\<close>

text \<open>
  The spec's \<^verbatim>\<open>SynthesizedEvent\<close>: the arguments handed to \<^verbatim>\<open>generate_output\<close>, as a tuple
  \<^verbatim>\<open>(timestamp, kind, reason, after_bound, before_bound)\<close>.
\<close>

definition emit_synthesized ::
  "string option \<Rightarrow> string \<Rightarrow> string \<Rightarrow> string option \<Rightarrow> string option
    \<Rightarrow> string option \<times> string \<times> string \<times> string option \<times> string option" where
  "emit_synthesized ts etype reason after_bound before_bound =
     (ts, etype, reason, after_bound, before_bound)"

abbreviation ex_validator ::
  "bool \<Rightarrow> (string option \<times> string \<times> string \<times> string option \<times> string option)
     validate_enrollment_for_events" where
  "ex_validator gen_before \<equiv>
     ValidateEnrollmentForEvents emit_synthesized ''foo/bar/baz'' 0 [] False gen_before
       ''2013-01-01''"

subsection \<open>Agreement of two validator objects up to diagnostics\<close>

text \<open>
  Two objects have the same core when they differ at most in \<open>require_validation\<close> and in
  what has been logged.
\<close>

definition same_core ::
  "'o validate_enrollment_for_events \<Rightarrow> 'o validate_enrollment_for_events \<Rightarrow> bool" where
  "same_core s t =
     (course_id s = course_id t \<and> user_id s = user_id t
      \<and> creation_timestamp s = creation_timestamp t
      \<and> generate_before s = generate_before t
      \<and> lower_bound_date_string s = lower_bound_date_string t
      \<and> generate_output s = generate_output t
      \<and> sorted_events s = sorted_events t)"

subsection \<open>Well-formed timestamps and the instants they denote\<close>

text \<open>
  The properties of the timestamp arithmetic are stated for the strings the event log
  carries: \<^verbatim>\<open>YYYY-MM-DDTHH:MM:SS.ffffff\<close>, every field in decimal at its full width.
  \<open>fixed_digits w n\<close> is the numeral of \<open>n\<close> at width \<open>w\<close> and \<open>iso_micro dt\<close> the timestamp of the
  datetime \<open>dt\<close> with its six-digit fraction always written.
\<close>

fun fixed_digits :: "nat \<Rightarrow> int \<Rightarrow> string" where
  "fixed_digits 0 n = []"
| "fixed_digits (Suc w) n = fixed_digits w (n div 10) @ [digit_char (n mod 10)]"

definition iso_micro :: "datetime \<Rightarrow> string" where
  "iso_micro dt = iso_seconds dt @ ''.'' @ fmt_d 6 (microsecond dt)"

text \<open>
  The instant of a datetime, in microseconds, counted the way \<^verbatim>\<open>datetime.toordinal\<close> counts
  days: day 1 is January 1 of year 1. \<open>datetime_min\<close> and \<open>datetime_max\<close> are the ends of the
  range of \<^verbatim>\<open>datetime\<close>.
\<close>

definition days_before_year :: "int \<Rightarrow> int" where
  "days_before_year y = (y - 1) * 365 + (y - 1) div 4 - (y - 1) div 100 + (y - 1) div 400"

definition days_before_month :: "int \<Rightarrow> int \<Rightarrow> int" where
  "days_before_month y m =
     [0, 31, 59, 90, 120, 151, 181, 212, 243, 273, 304, 334] ! nat (m - 1)
       + (if 2 < m \<and> is_leap y then 1 else 0)"

definition ymd2ord :: "int \<Rightarrow> int \<Rightarrow> int \<Rightarrow> int" where
  "ymd2ord y m d = days_before_year y + days_before_month y m + d"

definition to_microseconds :: "datetime \<Rightarrow> int" where
  "to_microseconds dt =
     ymd2ord (year dt) (month dt) (day dt) * 86400000000
       + ((hour dt * 60 + minute dt) * 60 + second dt) * 1000000 + microsecond dt"

definition datetime_min :: datetime where
  "datetime_min = \<lparr>year = 1, month = 1, day = 1, hour = 0, minute = 0, second = 0,
     microsecond = 0\<rparr>"

definition datetime_max :: datetime where
  "datetime_max = \<lparr>year = 9999, month = 12, day = 31, hour = 23, minute = 59, second = 59,
     microsecond = 999999\<rparr>"

text \<open>The fields of a datetime in their order of significance, and its time of day.\<close>

definition dt_key :: "datetime \<Rightarrow> int \<times> int \<times> int \<times> int \<times> int \<times> int \<times> int" where
  "dt_key dt = (year dt, month dt, day dt, hour dt, minute dt, second dt, microsecond dt)"

definition time_of_day :: "datetime \<Rightarrow> int" where
  "time_of_day dt = ((hour dt * 60 + minute dt) * 60 + second dt) * 1000000 + microsecond dt"

section \<open>Properties\<close>

subsection \<open>Basic facts\<close>

lemma event_type_distinct:
  "VALIDATED \<noteq> ACTIVATED" "VALIDATED \<noteq> DEACTIVATED" "VALIDATED \<noteq> SENTINEL"
  "ACTIVATED \<noteq> VALIDATED" "ACTIVATED \<noteq> DEACTIVATED" "ACTIVATED \<noteq> SENTINEL"
  "DEACTIVATED \<noteq> VALIDATED" "DEACTIVATED \<noteq> ACTIVATED" "DEACTIVATED \<noteq> SENTINEL"
  "SENTINEL \<noteq> VALIDATED" "SENTINEL \<noteq> ACTIVATED" "SENTINEL \<noteq> DEACTIVATED"
  by (simp_all add: VALIDATED_def ACTIVATED_def DEACTIVATED_def SENTINEL_def)

lemma get_fake_timestamp_after:
  "p \<noteq> [] \<Longrightarrow> get_fake_timestamp (Some p) b = add_microseconds p 1"
  by (simp add: get_fake_timestamp_def truthy_str_def)

lemma get_fake_timestamp_before:
  "get_fake_timestamp None (Some c) = add_microseconds c (- 1)"
  by (simp add: get_fake_timestamp_def truthy_str_def)

lemma log_error_fields:
  "generate_output (log_error r s) = generate_output s"
  "creation_timestamp (log_error r s) = creation_timestamp s"
  "generate_before (log_error r s) = generate_before s"
  "lower_bound_date_string (log_error r s) = lower_bound_date_string s"
  "require_validation (log_error r s) = require_validation s"
  "course_id (log_error r s) = course_id s"
  "user_id (log_error r s) = user_id s"
  "sorted_events (log_error r s) = sorted_events s"
  by (simp_all add: log_error_def)

lemma ex_offsets:
  "add_microseconds ''2013-08-01T00:00:01.123456'' 1 = Inr ''2013-08-01T00:00:01.123457''"
  "add_microseconds ''2013-04-01T00:00:01.123456'' 1 = Inr ''2013-04-01T00:00:01.123457''"
  "add_microseconds ''2013-09-01T00:00:01.123456'' (- 1) = Inr ''2013-09-01T00:00:01.123455''"
  by code_simp+

lemma ex_validator_fields:
  "generate_output (ex_validator b) = emit_synthesized"
  "generate_before (ex_validator b) = b"
  "lower_bound_date_string (ex_validator b) = ''2013-01-01''"
  "creation_timestamp (ex_validator b) = None"
  by (simp_all add: ValidateEnrollmentForEvents_def)

subsection \<open>A validation next to the sentinel\<close>

text \<open>
  Claim C3. For a validation next to the sentinel, if \<open>generate_before\<close> is false and the
  \<open>created\<close> value of the validation is below \<open>lower_bound_date_string\<close>, then
  \<open>check_transition\<close> never returns an event for the pair, whatever the \<open>is_active\<close> flag is;
  and when the offset of the event timestamp is accepted it returns without any event.
\<close>

theorem validated_after_sentinel_out_of_window:
  assumes "event_type curr_event = VALIDATED"
    and "\<not> generate_before self"
    and "created curr_event < Some (lower_bound_date_string self)"
  shows "(\<forall>out s. check_transition self initial_state curr_event \<noteq> Inr (Some out, s))
    \<and> (\<forall>c t0. timestamp curr_event = Some c \<longrightarrow> add_microseconds c (- 1) = Inr t0 \<longrightarrow>
          (\<exists>s. check_transition self initial_state curr_event = Inr (None, s)))"
  using assms
  by (auto simp add: check_transition_def check_validated_def
      get_fake_timestamp_before Let_def log_error_fields initial_state_def event_type_distinct
      split: sum.splits)

theorem validated_after_sentinel_out_of_window_witness:
  "\<exists>s. check_transition (ex_validator False) initial_state
      (make_event (''2013-09-01T00:00:01.123456'', VALIDATED, Some True,
         Some ''2012-04-01T00:00:01.123456''))
    = Inr (None, s)"
proof -
  have lt: "Some ''2012-04-01T00:00:01.123456'' < Some ''2013-01-01''"
    by simp
  show ?thesis
    using validated_after_sentinel_out_of_window [of
        "make_event (''2013-09-01T00:00:01.123456'', VALIDATED, Some True,
           Some ''2012-04-01T00:00:01.123456'')" "ex_validator False"] ex_offsets(3) lt
    by (simp add: make_event_def ex_validator_fields)
qed

subsection \<open>The stored creation timestamp\<close>

lemma check_validated_creation:
  "check_validated self prev_event curr_event ts = Inr (m, s) \<Longrightarrow>
   creation_timestamp s = created curr_event"
  by (auto simp add: check_validated_def Let_def log_error_fields split: sum.splits if_splits)

lemma check_activated_creation:
  "check_activated self prev_event curr_event ts = Inr (m, s) \<Longrightarrow> s = self"
  by (auto simp add: check_activated_def Let_def split: if_splits)

lemma check_deactivated_creation:
  "check_deactivated self prev_event curr_event ts = Inr (m, s) \<Longrightarrow> s = self"
  by (auto simp add: check_deactivated_def Let_def split: sum.splits if_splits)

lemma check_transition_creation:
  "check_transition self prev_event curr_event = Inr (m, s) \<Longrightarrow>
   creation_timestamp s =
     (if event_type curr_event = VALIDATED then created curr_event else creation_timestamp self)"
  by (auto simp add: check_transition_def event_type_distinct
      dest: check_validated_creation check_activated_creation check_deactivated_creation
      split: sum.splits if_splits)

lemma updated_fields:
  "generate_output (if b then log_error r (s\<lparr>creation_timestamp := c\<rparr>)
      else s\<lparr>creation_timestamp := c\<rparr>) = generate_output s"
  "generate_before (if b then log_error r (s\<lparr>creation_timestamp := c\<rparr>)
      else s\<lparr>creation_timestamp := c\<rparr>) = generate_before s"
  "lower_bound_date_string (if b then log_error r (s\<lparr>creation_timestamp := c\<rparr>)
      else s\<lparr>creation_timestamp := c\<rparr>) = lower_bound_date_string s"
  by (simp_all add: log_error_def)

lemma check_validated_output_independent:
  "map_sum id fst (check_validated (self\<lparr>creation_timestamp := c1\<rparr>) prev_event curr_event ts)
   = map_sum id fst (check_validated (self\<lparr>creation_timestamp := c2\<rparr>) prev_event curr_event ts)"
  unfolding check_validated_def Let_def
  by (simp add: updated_fields log_error_fields split: sum.splits)

lemma check_validated_summary:
  "map_sum id (\<lambda>(m, s). (m, creation_timestamp s)) (check_validated self prev_event curr_event ts)
   = map_sum id (\<lambda>m. (m, created curr_event))
       (map_sum id fst (check_validated self prev_event curr_event ts))"
  by (cases "check_validated self prev_event curr_event ts")
     (auto dest: check_validated_creation)

lemma scan_events_creation:
  "scan_events self evs vf acc = Inr (out, s) \<Longrightarrow>
   creation_timestamp s =
     (case filter (\<lambda>e. event_type e = VALIDATED) (butlast evs) of
        [] \<Rightarrow> creation_timestamp self
      | v # vs \<Rightarrow> created (last (v # vs)))"
proof (induction self evs vf acc arbitrary: out s rule: scan_events.induct)
  case (1 self event prev_event rest validation_found all_missing_events)
  from "1.prems" obtain m self1 where
    ct: "check_transition self prev_event event = Inr (m, self1)"
    by (auto simp add: Let_def split: sum.splits)
  let ?found = "validation_found \<or> event_type event = VALIDATED"
  let ?collected = "case m of None \<Rightarrow> all_missing_events | Some ms \<Rightarrow> all_missing_events @ ms"
  let ?self2 = "if require_validation self1 \<and> \<not> ?found
                then log_error (NoValidationEventFound (user_id self1) (course_id self1)) self1
                else self1"
  from "1.prems" ct have rec: "scan_events ?self2 (prev_event # rest) ?found ?collected = Inr (out, s)"
    by (simp add: Let_def)
  define fs where "fs = filter (\<lambda>e. event_type e = VALIDATED) (butlast (prev_event # rest))"
  have ih: "creation_timestamp s =
     (case fs of [] \<Rightarrow> creation_timestamp ?self2 | v # vs \<Rightarrow> created (last (v # vs)))"
    unfolding fs_def using "1.IH" [OF refl ct refl refl refl rec] .
  have c2: "creation_timestamp ?self2 = creation_timestamp self1"
    by (simp add: log_error_fields)
  have c1: "creation_timestamp self1 =
     (if event_type event = VALIDATED then created event else creation_timestamp self)"
    using check_transition_creation [OF ct] .
  have bl: "filter (\<lambda>e. event_type e = VALIDATED) (butlast (event # prev_event # rest))
     = (if event_type event = VALIDATED then event # fs else fs)"
    by (simp add: fs_def)
  show ?case
    unfolding bl ih c2 c1 by (cases fs) simp_all
next
  case 2 then show ?case by simp
next
  case 3 then show ?case by simp
qed

lemma sorted_hd_Min: "sorted zs \<Longrightarrow> zs \<noteq> [] \<Longrightarrow> hd zs = Min (set zs)"
  by (cases zs) (auto intro!: Min_eqI [symmetric])

lemma last_filter_sorted_reverse:
  assumes "filter P xs \<noteq> []"
  shows "last (filter P (sorted_reverse xs)) = Min (set (filter P xs))"
proof -
  let ?zs = "filter P (sort (rev xs))"
  have ne: "?zs \<noteq> []"
    using assms by (simp add: filter_empty_conv)
  have "filter P (sorted_reverse xs) = rev ?zs"
    by (simp add: sorted_reverse_def rev_filter)
  then have "last (filter P (sorted_reverse xs)) = hd ?zs"
    using ne by (simp add: last_rev)
  also have "\<dots> = Min (set ?zs)"
    using ne by (intro sorted_hd_Min) (simp_all add: sorted_filter [where f = "\<lambda>x. x", simplified])
  also have "set ?zs = set (filter P xs)"
    by auto
  finally show ?thesis .
qed

lemma ex_two_validations_run:
  "\<not> isl (reconcile emit_synthesized ''foo/bar/baz'' 0
      [(''2013-09-01T00:00:01.123456'', VALIDATED, Some True, Some ''2013-04-02T00:00:01.123456''),
       (''2013-08-01T00:00:01.123456'', VALIDATED, Some True, Some ''2013-04-01T00:00:01.123456'')]
      False True ''2013-01-01'')"
  by code_simp

lemma ex_sentinel_step:
  "\<not> isl (check_transition (ex_validator True) initial_state
      (make_event (''2013-09-01T00:00:01.123456'', VALIDATED, Some False,
         Some ''2013-04-01T00:00:01.123456'')))"
  by code_simp

text \<open>
  Claim C5. After \<open>check_transition\<close> has processed a pair whose newer event is a validation,
  the stored \<open>creation_timestamp\<close> is that event's \<open>created\<close> value. The value stored before
  has no influence on the outcome of such a call: the exception or the returned events and
  the value stored afterwards are the same for any two previous values, so a disagreement is
  not fatal and changes neither what is stored nor what is used. After the whole scan the
  stored value is the \<open>created\<close> value of the least validation tuple of the input, whose
  timestamp is at most that of every validation in the input; it is \<open>None\<close> when the input
  has no validation.
\<close>

theorem creation_timestamp_invariant:
  "(check_transition self prev_event curr_event = Inr (m, s) \<longrightarrow>
      event_type curr_event = VALIDATED \<longrightarrow> creation_timestamp s = created curr_event)
   \<and> (event_type curr_event = VALIDATED \<longrightarrow>
        map_sum id (\<lambda>(m, s). (m, creation_timestamp s))
          (check_transition (self\<lparr>creation_timestamp := c1\<rparr>) prev_event curr_event)
        = map_sum id (\<lambda>(m, s). (m, creation_timestamp s))
          (check_transition (self\<lparr>creation_timestamp := c2\<rparr>) prev_event curr_event))
   \<and> (reconcile emitter cid uid events req_validation gen_before lower_bound = Inr (out, s')
        \<longrightarrow>
        (let vs = filter (\<lambda>t. fst (snd t) = VALIDATED) events
         in if vs = [] then creation_timestamp s' = None
            else creation_timestamp s' = snd (snd (snd (Min (set vs))))
                 \<and> (\<forall>w \<in> set vs. fst (Min (set vs)) \<le> fst w)))"
proof (intro conjI impI)
  assume "check_transition self prev_event curr_event = Inr (m, s)"
    and "event_type curr_event = VALIDATED"
  then show "creation_timestamp s = created curr_event"
    by (simp add: check_transition_creation)
next
  assume "event_type curr_event = VALIDATED"
  then show "map_sum id (\<lambda>(m, s). (m, creation_timestamp s))
          (check_transition (self\<lparr>creation_timestamp := c1\<rparr>) prev_event curr_event)
        = map_sum id (\<lambda>(m, s). (m, creation_timestamp s))
          (check_transition (self\<lparr>creation_timestamp := c2\<rparr>) prev_event curr_event)"
    by (simp add: check_transition_def check_validated_summary
        check_validated_output_independent [where self = self and ?c1.0 = c1 and ?c2.0 = c2]
        split: sum.splits)
next
  assume r: "reconcile emitter cid uid events req_validation gen_before lower_bound = Inr (out, s')"
  let ?P = "\<lambda>t::event_tuple. fst (snd t) = VALIDATED"
  let ?vs = "filter ?P events"
  let ?self = "ValidateEnrollmentForEvents emitter cid uid events req_validation gen_before
    lower_bound"
  have se: "butlast (sorted_events ?self) = map make_event (sorted_reverse events)"
    by (simp add: ValidateEnrollmentForEvents_def)
  have ini: "creation_timestamp ?self = None"
    by (simp add: ValidateEnrollmentForEvents_def)
  have fm: "filter (\<lambda>e. event_type e = VALIDATED) (map make_event xs)
      = map make_event (filter ?P xs)" for xs
    by (induction xs) (auto simp add: make_event_def)
  have ct: "creation_timestamp s' =
     (case map make_event (filter ?P (sorted_reverse events)) of
        [] \<Rightarrow> None
      | v # vs \<Rightarrow> created (last (v # vs)))"
    using scan_events_creation [OF r [unfolded reconcile_def missing_enrolled_def]]
    by (simp add: se fm ini split: list.splits)
  have emp: "filter ?P (sorted_reverse events) = [] \<longleftrightarrow> ?vs = []"
    by (simp add: sorted_reverse_def filter_empty_conv)
  show "let vs = ?vs
         in if vs = [] then creation_timestamp s' = None
            else creation_timestamp s' = snd (snd (snd (Min (set vs))))
                 \<and> (\<forall>w \<in> set vs. fst (Min (set vs)) \<le> fst w)"
  proof (cases "?vs = []")
    case True
    with ct emp show ?thesis by (simp add: Let_def)
  next
    case False
    then have ne: "filter ?P (sorted_reverse events) \<noteq> []"
      using emp by simp
    then have "creation_timestamp s' =
        created (last (map make_event (filter ?P (sorted_reverse events))))"
      using ct by (simp split: list.splits)
    also have "\<dots> = created (make_event (last (filter ?P (sorted_reverse events))))"
      using ne by (simp add: last_map)
    also have "\<dots> = snd (snd (snd (Min (set ?vs))))"
      using last_filter_sorted_reverse [OF False]
      by (simp add: make_event_def split: prod.splits)
    finally have a: "creation_timestamp s' = snd (snd (snd (Min (set ?vs))))" .
    have b: "fst (Min (set ?vs)) \<le> fst w" if "w \<in> set ?vs" for w
    proof -
      have "Min (set ?vs) \<le> w"
        using that by (intro Min_le) simp_all
      then show ?thesis
        by (cases "Min (set ?vs)"; cases w) (auto simp add: less_eq_prod_def)
    qed
    from a b False show ?thesis
      by (simp add: Let_def)
  qed
qed

theorem creation_timestamp_invariant_witness:
  "(\<exists>m s. check_transition (ex_validator True) initial_state
       (make_event (''2013-09-01T00:00:01.123456'', VALIDATED, Some False,
          Some ''2013-04-01T00:00:01.123456'')) = Inr (m, s)
      \<and> creation_timestamp s = Some ''2013-04-01T00:00:01.123456'')
   \<and> map_sum id (\<lambda>(m, s). (m, creation_timestamp s))
        (check_transition ((ex_validator True)\<lparr>creation_timestamp := Some ''2013-04-02''\<rparr>)
          initial_state
          (make_event (''2013-09-01T00:00:01.123456'', VALIDATED, Some False,
             Some ''2013-04-01T00:00:01.123456'')))
      = map_sum id (\<lambda>(m, s). (m, creation_timestamp s))
        (check_transition ((ex_validator True)\<lparr>creation_timestamp := None\<rparr>)
          initial_state
          (make_event (''2013-09-01T00:00:01.123456'', VALIDATED, Some False,
             Some ''2013-04-01T00:00:01.123456'')))
   \<and> (\<exists>out s. reconcile emit_synthesized ''foo/bar/baz'' 0
        [(''2013-09-01T00:00:01.123456'', VALIDATED, Some True,
          Some ''2013-04-02T00:00:01.123456''),
         (''2013-08-01T00:00:01.123456'', VALIDATED, Some True,
          Some ''2013-04-01T00:00:01.123456'')]
        False True ''2013-01-01'' = Inr (out, s)
      \<and> creation_timestamp s = Some ''2013-04-01T00:00:01.123456'')"
proof -
  let ?e = "make_event (''2013-09-01T00:00:01.123456'', VALIDATED, Some False,
          Some ''2013-04-01T00:00:01.123456'')"
  let ?evs = "[(''2013-09-01T00:00:01.123456'', VALIDATED, Some True,
          Some ''2013-04-02T00:00:01.123456''),
         (''2013-08-01T00:00:01.123456'', VALIDATED, Some True,
          Some ''2013-04-01T00:00:01.123456'')] :: event_tuple list"
  have ev: "event_type ?e = VALIDATED" and cr: "created ?e = Some ''2013-04-01T00:00:01.123456''"
    by (simp_all add: make_event_def)
  obtain m s where ct: "check_transition (ex_validator True) initial_state ?e = Inr (m, s)"
    using ex_sentinel_step
    by (cases "check_transition (ex_validator True) initial_state ?e") auto
  have a: "creation_timestamp s = Some ''2013-04-01T00:00:01.123456''"
    using creation_timestamp_invariant [THEN conjunct1, THEN mp, THEN mp, OF ct ev] cr
    by simp
  have b: "map_sum id (\<lambda>(m, s). (m, creation_timestamp s))
        (check_transition ((ex_validator True)\<lparr>creation_timestamp := Some ''2013-04-02''\<rparr>)
          initial_state ?e)
      = map_sum id (\<lambda>(m, s). (m, creation_timestamp s))
        (check_transition ((ex_validator True)\<lparr>creation_timestamp := None\<rparr>)
          initial_state ?e)"
    using creation_timestamp_invariant [THEN conjunct2, THEN conjunct1, THEN mp, OF ev] .
  obtain out s' where r: "reconcile emit_synthesized ''foo/bar/baz'' 0 ?evs False True
      ''2013-01-01'' = Inr (out, s')"
    using ex_two_validations_run
    by (cases "reconcile emit_synthesized ''foo/bar/baz'' 0 ?evs False True ''2013-01-01''") auto
  have mn: "Min (set ?evs) = (''2013-08-01T00:00:01.123456'', VALIDATED, Some True,
          Some ''2013-04-01T00:00:01.123456'')"
    by (simp add: min_def)
  have c: "creation_timestamp s' = Some ''2013-04-01T00:00:01.123456''"
    using creation_timestamp_invariant [THEN conjunct2, THEN conjunct2, THEN mp, OF r] mn
    by (simp add: Let_def)
  from ct a b r c show ?thesis by blast
qed

subsection \<open>Order of the input\<close>

text \<open>
  Claim C8. Two input lists with the same multiset of tuples give the same result of
  construction followed by \<open>missing_enrolled\<close>: the same exception, or the same output list
  in the same order and the same final object.
\<close>

theorem permutation_invariance:
  assumes "mset events1 = mset events2"
  shows "reconcile emitter cid uid events1 req_validation gen_before lower_bound
       = reconcile emitter cid uid events2 req_validation gen_before lower_bound"
proof -
  have "sort (rev events1) = sort (rev events2)"
    using assms by (intro properties_for_sort) simp_all
  then show ?thesis
    by (simp add: reconcile_def ValidateEnrollmentForEvents_def sorted_reverse_def)
qed

theorem permutation_invariance_witness:
  "mset [(''2013-09-01T00:00:01.123456'', VALIDATED, Some True, Some ''2013-04-01T00:00:01.123456''),
         (''2013-08-01T00:00:01.123456'', DEACTIVATED, None, None)]
   = mset [(''2013-08-01T00:00:01.123456'', DEACTIVATED, None, None),
           (''2013-09-01T00:00:01.123456'', VALIDATED, Some True,
            Some ''2013-04-01T00:00:01.123456'')]
   \<and> reconcile emit_synthesized ''foo/bar/baz'' 0
        [(''2013-09-01T00:00:01.123456'', VALIDATED, Some True, Some ''2013-04-01T00:00:01.123456''),
         (''2013-08-01T00:00:01.123456'', DEACTIVATED, None, None)] False True ''2013-01-01''
     = reconcile emit_synthesized ''foo/bar/baz'' 0
        [(''2013-08-01T00:00:01.123456'', DEACTIVATED, None, None),
         (''2013-09-01T00:00:01.123456'', VALIDATED, Some True,
          Some ''2013-04-01T00:00:01.123456'')] False True ''2013-01-01''"
proof -
  have m: "mset [(''2013-09-01T00:00:01.123456'', VALIDATED, Some True, Some ''2013-04-01T00:00:01.123456''),
         (''2013-08-01T00:00:01.123456'', DEACTIVATED, None, None)]
   = mset [(''2013-08-01T00:00:01.123456'', DEACTIVATED, None, None),
           (''2013-09-01T00:00:01.123456'', VALIDATED, Some True,
            Some ''2013-04-01T00:00:01.123456'')]"
    by (simp add: add_mset_commute)
  from m permutation_invariance [OF m] show ?thesis
    by blast
qed

subsection \<open>The option \<open>require_validation\<close>\<close>

lemma check_validated_same_core:
  "same_core s t \<Longrightarrow>
   rel_sum (=) (rel_prod (=) same_core)
     (check_validated s prev_event curr_event ts) (check_validated t prev_event curr_event ts)"
  unfolding check_validated_def Let_def same_core_def
  by (simp add: log_error_def split: sum.splits)

lemma check_activated_same_core:
  "same_core s t \<Longrightarrow>
   rel_sum (=) (rel_prod (=) same_core)
     (check_activated s prev_event curr_event ts) (check_activated t prev_event curr_event ts)"
  unfolding check_activated_def Let_def same_core_def
  by simp

lemma check_deactivated_same_core:
  "same_core s t \<Longrightarrow>
   rel_sum (=) (rel_prod (=) same_core)
     (check_deactivated s prev_event curr_event ts) (check_deactivated t prev_event curr_event ts)"
  unfolding check_deactivated_def Let_def same_core_def
  by (simp split: sum.splits)

lemma check_transition_same_core:
  assumes "same_core s t"
  shows "rel_sum (=) (rel_prod (=) same_core)
     (check_transition s prev_event curr_event) (check_transition t prev_event curr_event)"
  unfolding check_transition_def
  using check_validated_same_core [OF assms] check_activated_same_core [OF assms]
    check_deactivated_same_core [OF assms] assms
  by (simp split: sum.splits)

lemma same_core_log_error:
  "same_core s t \<Longrightarrow> same_core (if b then log_error r s else s) (if b' then log_error r' t else t)"
  by (simp add: same_core_def log_error_def)

lemma scan_events_same_core:
  "same_core s t \<Longrightarrow>
   rel_sum (=) (rel_prod (=) same_core) (scan_events s evs vf acc) (scan_events t evs vf' acc)"
proof (induction s evs vf acc arbitrary: t vf' rule: scan_events.induct)
  case (1 self event prev_event rest validation_found all_missing_events)
  note ct = check_transition_same_core [OF "1.prems", of prev_event event]
  show ?case
  proof (cases "check_transition self prev_event event")
    case (Inl e)
    with ct show ?thesis
      by (cases "check_transition t prev_event event") simp_all
  next
    case (Inr x)
    obtain m self1 where x: "x = (m, self1)" by (cases x)
    from ct Inr x obtain t1 where t1: "check_transition t prev_event event = Inr (m, t1)"
      and sc: "same_core self1 t1"
      by (cases "check_transition t prev_event event") auto
    show ?thesis
      using "1.IH" [OF refl Inr x [symmetric] refl refl same_core_log_error [OF sc]] Inr x t1
      by (simp add: Let_def)
  qed
next
  case 2 then show ?case by simp
next
  case 3 then show ?case by simp
qed

text \<open>
  Claim C9. For every emitter, course id, user id, input list and setting of the other
  options, the run with \<open>require_validation\<close> set and the run with it cleared end in the same
  exception or return the same list of events.
\<close>

theorem require_validation_noninterference:
  "map_sum id fst (reconcile emitter cid uid events True gen_before lower_bound)
   = map_sum id fst (reconcile emitter cid uid events False gen_before lower_bound)"
proof -
  let ?s = "ValidateEnrollmentForEvents emitter cid uid events True gen_before lower_bound"
  let ?t = "ValidateEnrollmentForEvents emitter cid uid events False gen_before lower_bound"
  have sc: "same_core ?s ?t"
    by (simp add: same_core_def ValidateEnrollmentForEvents_def)
  have se: "sorted_events ?s = sorted_events ?t"
    by (simp add: ValidateEnrollmentForEvents_def)
  have "rel_sum (=) (rel_prod (=) same_core) (missing_enrolled ?s) (missing_enrolled ?t)"
    unfolding missing_enrolled_def se by (rule scan_events_same_core [OF sc])
  then show ?thesis
    unfolding reconcile_def
    by (cases "missing_enrolled ?s"; cases "missing_enrolled ?t") auto
qed

subsection \<open>A validation without a creation timestamp\<close>

text \<open>
  Claim C10. The claim says that every returned record has a timestamp that is not null. With
  \<open>generate_before\<close> set, a single active validation whose \<open>created\<close> field is \<^verbatim>\<open>None\<close> makes
  \<open>check_transition\<close> call the emitter with the timestamp \<^verbatim>\<open>None\<close>: \<^verbatim>\<open>create_tuple\<close> passes
  \<^verbatim>\<open>None\<close> to \<^verbatim>\<open>timestamp_to_datestamp\<close> and the record carries a null timestamp.
\<close>

theorem null_created_reaches_emitter:
  "map_sum id fst
     (reconcile (create_tuple to_datestamp cid uid) cid uid
        [(''2013-09-01T00:00:01.123456'', VALIDATED, Some True, None)]
        req_validation True lower_bound)
   = Inr [(to_datestamp None,
           (cid, uid, None, ACTIVATED, ''start => validate(active)'', None,
            Some ''2013-09-01T00:00:01.123456''))]"
proof -
  have "get_transition_string initial_state
      (make_event (''2013-09-01T00:00:01.123456'', VALIDATED, Some True, None))
    = ''start => validate(active)''"
    by (simp add: get_transition_string_def get_state_string_def STATE_MAP_def make_event_def
        truthy_bool_def initial_state_def event_type_distinct)
  then show ?thesis
    by (simp add: reconcile_def missing_enrolled_def ValidateEnrollmentForEvents_def
        sorted_reverse_def check_transition_def check_validated_def Let_def
        get_fake_timestamp_before ex_offsets make_event_def initial_state_def
        event_type_distinct truthy_bool_def truthy_str_def create_tuple_def log_error_def)
qed

section \<open>The timestamp arithmetic\<close>

subsection \<open>Decimal numerals of fixed width\<close>

lemma digit_range:
  "0 \<le> d \<Longrightarrow> d < 10 \<Longrightarrow>
   d = 0 \<or> d = 1 \<or> d = 2 \<or> d = 3 \<or> d = 4 \<or> d = 5 \<or> d = 6 \<or> d = 7 \<or> d = 8 \<or> d = (9::int)"
  by arith

lemma digit_char_eval:
  "digit_char 0 = CHR ''0''" "digit_char 1 = CHR ''1''" "digit_char 2 = CHR ''2''"
  "digit_char 3 = CHR ''3''" "digit_char 4 = CHR ''4''" "digit_char 5 = CHR ''5''"
  "digit_char 6 = CHR ''6''" "digit_char 7 = CHR ''7''" "digit_char 8 = CHR ''8''"
  "digit_char 9 = CHR ''9''"
  by code_simp+

lemma of_char_digit_char: "0 \<le> d \<Longrightarrow> d < 10 \<Longrightarrow> of_char (digit_char d) = (48 + d :: int)"
  using digit_range [of d] by (auto simp add: digit_char_eval)

lemma digit_val_digit_char: "0 \<le> d \<Longrightarrow> d < 10 \<Longrightarrow> digit_val (digit_char d) = d"
  by (simp add: digit_val_def of_char_digit_char)

lemma is_digit_digit_char: "0 \<le> d \<Longrightarrow> d < 10 \<Longrightarrow> is_digit (digit_char d)"
  using digit_range [of d] by (auto simp add: digit_char_eval is_digit_def)

lemma digit_char_less:
  "0 \<le> a \<Longrightarrow> a < 10 \<Longrightarrow> 0 \<le> b \<Longrightarrow> b < 10 \<Longrightarrow> digit_char a < digit_char b \<longleftrightarrow> a < b"
  using digit_range [of a] digit_range [of b] by (auto simp add: digit_char_eval)

lemma digit_char_inj:
  "0 \<le> a \<Longrightarrow> a < 10 \<Longrightarrow> 0 \<le> b \<Longrightarrow> b < 10 \<Longrightarrow> digit_char a = digit_char b \<longleftrightarrow> a = b"
  by (metis digit_val_digit_char)

lemma is_digit_not_separator:
  "is_digit c \<Longrightarrow> c \<noteq> CHR ''.'' \<and> c \<noteq> CHR ''-'' \<and> c \<noteq> CHR ''+'' \<and> c \<noteq> CHR '':''
     \<and> c \<noteq> CHR ''T'' \<and> c \<noteq> CHR ''t'' \<and> c \<noteq> CHR '' '' \<and> \<not> is_space c"
  by (auto simp add: is_digit_def is_space_def)

lemma length_fixed_digits [simp]: "length (fixed_digits w n) = w"
  by (induction w arbitrary: n) simp_all

lemma fixed_digits_all_digits: "list_all is_digit (fixed_digits w n)"
  by (induction w arbitrary: n) (simp_all add: is_digit_digit_char)

lemma digits_val_snoc: "digits_val (xs @ [c]) = 10 * digits_val xs + digit_val c"
  by (simp add: digits_val_def)

lemma digits_val_fixed_digits:
  "0 \<le> n \<Longrightarrow> n < 10 ^ w \<Longrightarrow> digits_val (fixed_digits w n) = n"
proof (induction w arbitrary: n)
  case 0
  then show ?case by (simp add: digits_val_def)
next
  case (Suc w)
  have "n div 10 < 10 ^ w"
    using Suc.prems by (simp add: div_less_iff_less_mult)
  moreover have "0 \<le> n div 10"
    using Suc.prems by simp
  ultimately have "digits_val (fixed_digits w (n div 10)) = n div 10"
    by (rule Suc.IH [rotated])
  then show ?case
    by (simp add: digits_val_snoc digit_val_digit_char)
qed

lemma fixed_digits_zero: "fixed_digits w 0 = replicate w (CHR ''0'')"
  by (induction w) (simp_all add: digit_char_eval replicate_append_same)

lemma dec_digits_pad:
  "0 \<le> n \<Longrightarrow> n < 10 ^ w \<Longrightarrow> 0 < w \<Longrightarrow>
   length (dec_digits n) \<le> w
   \<and> replicate (w - length (dec_digits n)) (CHR ''0'') @ dec_digits n = fixed_digits w n"
proof (induction w arbitrary: n)
  case 0
  then show ?case by simp
next
  case (Suc w)
  show ?case
  proof (cases "n < 10")
    case True
    then have "dec_digits n = [digit_char n]"
      by (simp add: dec_digits.simps)
    moreover have "n div 10 = 0" "n mod 10 = n"
      using True Suc.prems by simp_all
    ultimately show ?thesis
      by (simp add: fixed_digits_zero)
  next
    case False
    then have dd: "dec_digits n = dec_digits (n div 10) @ [digit_char (n mod 10)]"
      by (subst dec_digits.simps) simp
    have w: "0 < w"
      using False Suc.prems by (cases w) simp_all
    have "n div 10 < 10 ^ w"
      using Suc.prems by (simp add: div_less_iff_less_mult)
    moreover have "0 \<le> n div 10"
      using Suc.prems by simp
    ultimately have ih: "length (dec_digits (n div 10)) \<le> w
      \<and> replicate (w - length (dec_digits (n div 10))) (CHR ''0'') @ dec_digits (n div 10)
          = fixed_digits w (n div 10)"
      using w by (intro Suc.IH) simp_all
    then show ?thesis
      by (simp add: dd)
  qed
qed

lemma dec_digits_hd:
  "0 \<le> n \<Longrightarrow> dec_digits n \<noteq> [] \<and> is_digit (hd (dec_digits n))"
proof (induction n rule: dec_digits.induct)
  case (1 n)
  show ?case
  proof (cases "n < 10")
    case True
    with 1 show ?thesis
      by (simp add: dec_digits.simps [of n] is_digit_digit_char)
  next
    case False
    then have "0 \<le> n div 10" by simp
    with 1 False show ?thesis
      by (simp add: dec_digits.simps [of n])
  qed
qed

lemma fmt_d_fixed:
  assumes "0 \<le> n" and "n < 10 ^ w" and "0 < w"
  shows "fmt_d w n = fixed_digits w n"
proof -
  obtain c rest where s: "dec_digits n = c # rest" and c: "is_digit c"
    using dec_digits_hd [OF assms(1)] by (cases "dec_digits n") auto
  have "c \<noteq> CHR ''+''" "c \<noteq> CHR ''-''"
    using is_digit_not_separator [OF c] by simp_all
  then have "zfill w (dec_digits n)
      = replicate (w - length (dec_digits n)) (CHR ''0'') @ dec_digits n"
    by (simp add: zfill_def s)
  then show ?thesis
    using dec_digits_pad [OF assms] assms(1) by (simp add: fmt_d_def str_int_def)
qed

lemma append_less_append:
  "length xs = length ys \<Longrightarrow>
   xs @ us < ys @ vs \<longleftrightarrow> xs < ys \<or> (xs = ys \<and> us < vs)"
  for xs ys :: "'a::linorder list"
  by (induction xs ys rule: list_induct2) auto

lemma div10_less_iff:
  "a div 10 < b div 10 \<or> (a div 10 = b div 10 \<and> a mod 10 < b mod 10) \<longleftrightarrow> a < b"
  for a b :: int
proof -
  have "0 \<le> a mod 10" "a mod 10 < 10" "0 \<le> b mod 10" "b mod 10 < 10"
    by simp_all
  then have "a div 10 < b div 10 \<or> (a div 10 = b div 10 \<and> a mod 10 < b mod 10) \<longleftrightarrow>
      10 * (a div 10) + a mod 10 < 10 * (b div 10) + b mod 10"
    by linarith
  then show ?thesis
    by simp
qed

lemma div10_bounds:
  "0 \<le> n \<Longrightarrow> n < 10 ^ Suc w \<Longrightarrow> 0 \<le> n div 10 \<and> n div 10 < 10 ^ w" for n :: int
proof -
  have "m < 10 * k \<Longrightarrow> m div 10 < k" for m k :: int
  proof -
    assume "m < 10 * k"
    moreover have "10 * (m div 10) + m mod 10 = m" "0 \<le> m mod 10"
      by simp_all
    ultimately show "m div 10 < k"
      by linarith
  qed
  then show "0 \<le> n \<Longrightarrow> n < 10 ^ Suc w \<Longrightarrow> 0 \<le> n div 10 \<and> n div 10 < 10 ^ w"
    by simp
qed

lemma fixed_digits_inj:
  assumes "0 \<le> a" "a < 10 ^ w" "0 \<le> b" "b < 10 ^ w"
    and eq: "fixed_digits w a = fixed_digits w b"
  shows "a = b"
proof -
  have "a = digits_val (fixed_digits w a)"
    using assms(1,2) by (rule digits_val_fixed_digits [symmetric])
  also have "\<dots> = digits_val (fixed_digits w b)"
    by (simp only: eq)
  also have "\<dots> = b"
    using assms(3,4) by (rule digits_val_fixed_digits)
  finally show ?thesis .
qed

lemma fixed_digits_less:
  "0 \<le> a \<Longrightarrow> a < 10 ^ w \<Longrightarrow> 0 \<le> b \<Longrightarrow> b < 10 ^ w \<Longrightarrow>
   fixed_digits w a < fixed_digits w b \<longleftrightarrow> a < b"
proof (induction w arbitrary: a b)
  case 0
  then show ?case by simp
next
  case (Suc w)
  note ra = div10_bounds [OF Suc.prems(1,2)] and rb = div10_bounds [OF Suc.prems(3,4)]
  have ih: "fixed_digits w (a div 10) < fixed_digits w (b div 10) \<longleftrightarrow> a div 10 < b div 10"
    using ra rb by (intro Suc.IH) simp_all
  have eq: "fixed_digits w (a div 10) = fixed_digits w (b div 10) \<longleftrightarrow> a div 10 = b div 10"
  proof
    assume "fixed_digits w (a div 10) = fixed_digits w (b div 10)"
    with ra rb show "a div 10 = b div 10"
      by (intro fixed_digits_inj [of "a div 10" w "b div 10"]) simp_all
  next
    assume "a div 10 = b div 10"
    then show "fixed_digits w (a div 10) = fixed_digits w (b div 10)"
      by (simp only:)
  qed
  have dl: "digit_char (a mod 10) < digit_char (b mod 10) \<longleftrightarrow> a mod 10 < b mod 10"
    by (rule digit_char_less) simp_all
  have "fixed_digits (Suc w) a < fixed_digits (Suc w) b \<longleftrightarrow>
      fixed_digits w (a div 10) < fixed_digits w (b div 10)
      \<or> (fixed_digits w (a div 10) = fixed_digits w (b div 10)
          \<and> [digit_char (a mod 10)] < [digit_char (b mod 10)])"
    unfolding fixed_digits.simps by (rule append_less_append) simp
  also have "\<dots> \<longleftrightarrow> a div 10 < b div 10 \<or> (a div 10 = b div 10 \<and> a mod 10 < b mod 10)"
    unfolding ih eq by (simp add: dl)
  also have "\<dots> \<longleftrightarrow> a < b"
    by (rule div10_less_iff)
  finally show ?case .
qed

subsection \<open>Parsing a well-formed timestamp\<close>

lemma fixed_digits_chars: "c \<in> set (fixed_digits w n) \<Longrightarrow> is_digit c"
  using fixed_digits_all_digits [of w n] by (simp add: list_all_iff)

lemma days_in_month_bounds: "28 \<le> days_in_month y m \<and> days_in_month y m \<le> 31"
  by (simp add: days_in_month_def)

lemma split_on_append:
  "(\<And>c. c \<in> set xs \<Longrightarrow> \<not> P c) \<Longrightarrow> P s \<Longrightarrow> split_on P (xs @ s # rest) = Some (xs, rest)"
  by (simp add: split_on_def)

lemma partition_str_found:
  "(\<And>c. c \<in> set xs \<Longrightarrow> c \<noteq> sep) \<Longrightarrow> partition_str sep (xs @ sep # rest) = (xs, [sep], rest)"
  by (simp add: partition_str_def)

lemma partition_str_absent:
  assumes "\<And>c. c \<in> set xs \<Longrightarrow> c \<noteq> sep"
  shows "partition_str sep xs = (xs, [], [])"
proof -
  have d: "dropWhile (\<lambda>c. c \<noteq> sep) xs = []"
    using assms by (simp add: dropWhile_eq_Nil_conv)
  show ?thesis
    unfolding partition_str_def d by simp
qed

lemma fixed_digits_nonempty: "0 < w \<Longrightarrow> fixed_digits w n \<noteq> []"
  using length_fixed_digits [of w n] by (cases "fixed_digits w n") simp_all

lemma year_field_fixed: "0 \<le> y \<Longrightarrow> y < 10000 \<Longrightarrow> year_field (fixed_digits 4 y) = Some y"
  using digits_val_fixed_digits [of y 4]
  by (simp add: year_field_def fixed_digits_all_digits)

lemma fraction_field_fixed:
  "0 \<le> u \<Longrightarrow> u < 1000000 \<Longrightarrow> fraction_field (fixed_digits 6 u) = Some u"
  using digits_val_fixed_digits [of u 6]
  by (simp add: fraction_field_def fixed_digits_all_digits fixed_digits_nonempty)

lemma num_field_fixed:
  "0 \<le> v \<Longrightarrow> v < 100 \<Longrightarrow> lo \<le> v \<Longrightarrow> v \<le> hi \<Longrightarrow> num_field lo hi (fixed_digits 2 v) = Some v"
  using digits_val_fixed_digits [of v 2]
  by (simp add: num_field_def fixed_digits_all_digits fixed_digits_nonempty)

lemma day_field_fixed:
  assumes "0 \<le> d" "d < 100" "1 \<le> d" "d \<le> 31"
  shows "day_field (fixed_digits 2 d) = Some d"
proof -
  have two: "fixed_digits 2 d = [digit_char (d div 10 mod 10), digit_char (d mod 10)]"
    by (simp add: numeral_2_eq_2)
  have "is_digit (digit_char (d div 10 mod 10))"
    by (rule is_digit_digit_char) simp_all
  then have "digit_char (d div 10 mod 10) \<noteq> CHR '' ''"
    using is_digit_not_separator by blast
  then have "day_field (fixed_digits 2 d) = num_field 1 31 (fixed_digits 2 d)"
    unfolding two by (simp add: day_field_def)
  then show ?thesis
    using assms by (simp add: num_field_fixed)
qed

lemma valid_datetime_bounds:
  assumes "valid_datetime dt"
  shows "0 \<le> year dt" "year dt < 10 ^ 4" "0 \<le> month dt" "month dt < 10 ^ 2"
    "0 \<le> day dt" "day dt < 10 ^ 2" "0 \<le> hour dt" "hour dt < 10 ^ 2"
    "0 \<le> minute dt" "minute dt < 10 ^ 2" "0 \<le> second dt" "second dt < 10 ^ 2"
    "0 \<le> microsecond dt" "microsecond dt < 10 ^ 6"
  using assms days_in_month_bounds [of "year dt" "month dt"]
  by (simp_all add: valid_datetime_def valid_date_def)

lemma iso_seconds_fixed:
  assumes "valid_datetime dt"
  shows "iso_seconds dt =
     fixed_digits 4 (year dt) @ CHR ''-'' # fixed_digits 2 (month dt) @ CHR ''-'' #
     fixed_digits 2 (day dt) @ CHR ''T'' # fixed_digits 2 (hour dt) @ CHR '':'' #
     fixed_digits 2 (minute dt) @ CHR '':'' # fixed_digits 2 (second dt)"
  using valid_datetime_bounds [OF assms]
  by (simp add: iso_seconds_def fmt_d_fixed)

lemma iso_micro_fixed:
  assumes "valid_datetime dt"
  shows "iso_micro dt = iso_seconds dt @ CHR ''.'' # fixed_digits 6 (microsecond dt)"
  using valid_datetime_bounds [OF assms]
  by (simp add: iso_micro_def fmt_d_fixed)

lemma iso_seconds_no_dot:
  assumes "valid_datetime dt" and "c \<in> set (iso_seconds dt)"
  shows "c \<noteq> CHR ''.''"
  using assms(2) is_digit_not_separator [of c]
  unfolding iso_seconds_fixed [OF assms(1)]
  by (auto dest: fixed_digits_chars)

lemma split_on_fixed:
  assumes "P s" and "\<And>c. is_digit c \<Longrightarrow> \<not> P c"
  shows "split_on P (fixed_digits w n @ s # rest) = Some (fixed_digits w n, rest)"
  using assms by (intro split_on_append) (auto dest: fixed_digits_chars)

lemma split_fields_iso:
  assumes "valid_datetime dt"
  shows "split_fields (iso_seconds dt @ CHR ''.'' # f) =
     Some (fixed_digits 4 (year dt), fixed_digits 2 (month dt), fixed_digits 2 (day dt),
           fixed_digits 2 (hour dt), fixed_digits 2 (minute dt), fixed_digits 2 (second dt), f)"
proof -
  have sep: "is_digit c \<Longrightarrow> c \<noteq> CHR ''-''" "is_digit c \<Longrightarrow> \<not> (c = CHR ''T'' \<or> c = CHR ''t'')"
    "is_digit c \<Longrightarrow> c \<noteq> CHR '':''" "is_digit c \<Longrightarrow> c \<noteq> CHR ''.''" for c
    using is_digit_not_separator [of c] by simp_all
  show ?thesis
    unfolding iso_seconds_fixed [OF assms] split_fields_def
    by (simp add: split_on_fixed sep)
qed

lemma strptime_iso_micro:
  assumes "valid_datetime dt"
  shows "strptime (iso_micro dt) = Inr dt"
proof -
  note b = valid_datetime_bounds [OF assms]
  have v: "1 \<le> month dt" "month dt \<le> 12" "1 \<le> day dt" "day dt \<le> 31"
    "hour dt \<le> 23" "minute dt \<le> 59" "second dt \<le> 61"
    using assms days_in_month_bounds [of "year dt" "month dt"]
    by (simp_all add: valid_datetime_def valid_date_def)
  have "parse_fields (iso_micro dt) = Some dt"
    unfolding iso_micro_fixed [OF assms] parse_fields_def split_fields_iso [OF assms]
    using b v
    by (simp add: year_field_fixed num_field_fixed day_field_fixed fraction_field_fixed)
  then show ?thesis
    using assms by (simp add: strptime_def)
qed

subsection \<open>Days of the calendar\<close>

lemma div_step:
  fixes y k :: int
  assumes "0 < k"
  shows "y div k - (y - 1) div k = (if y mod k = 0 then 1 else 0)"
proof (cases "y mod k = 0")
  case True
  have "k * (y div k) + y mod k = y"
    by (rule mult_div_mod_eq)
  with True have "y = k * (y div k)"
    by simp
  then have "y - 1 = k * (y div k - 1) + (k - 1)"
    by (simp add: algebra_simps)
  then have "(y - 1) div k = y div k - 1"
    using assms by (intro int_div_pos_eq [where r = "k - 1"]) simp_all
  with True show ?thesis by simp
next
  case False
  have "0 \<le> y mod k" "y mod k < k"
    using assms by simp_all
  with False have r: "0 \<le> y mod k - 1" "y mod k - 1 < k"
    by simp_all
  have "y - 1 = k * (y div k) + (y mod k - 1)"
    by simp
  then have "(y - 1) div k = y div k"
    using r by (intro int_div_pos_eq [where r = "y mod k - 1"]) simp_all
  with False show ?thesis by simp
qed

lemma mod_4_100:
  fixes y :: int
  shows "y mod 100 = 0 \<Longrightarrow> y mod 4 = 0"
proof -
  assume "y mod 100 = 0"
  then have "100 dvd y" by (simp add: mod_eq_0_iff_dvd)
  moreover have "(4::int) dvd 100" by simp
  ultimately have "4 dvd y" by (rule dvd_trans [rotated])
  then show ?thesis by (simp add: mod_eq_0_iff_dvd)
qed
lemma mod_100_400:
  fixes y :: int
  shows "y mod 400 = 0 \<Longrightarrow> y mod 100 = 0"
proof -
  assume "y mod 400 = 0"
  then have "400 dvd y" by (simp add: mod_eq_0_iff_dvd)
  moreover have "(100::int) dvd 400" by simp
  ultimately have "100 dvd y" by (rule dvd_trans [rotated])
  then show ?thesis by (simp add: mod_eq_0_iff_dvd)
qed

lemma leap_count:
  "(c \<Longrightarrow> b) \<Longrightarrow> (b \<Longrightarrow> a) \<Longrightarrow>
   x + 365 + (if a then 1 else 0) - (if b then 1 else 0) + (if c then 1 else 0)
     = x + (if a \<and> (\<not> b \<or> c) then 366 else (365::int))"
  by (cases a; cases b; cases c) simp_all

lemma days_before_year_step:
  "days_before_year (y + 1) = days_before_year y + (if is_leap y then 366 else 365)"
proof -
  have d4: "y div 4 = (y - 1) div 4 + (if y mod 4 = 0 then 1 else 0)"
    using div_step [of 4 y] by simp
  have d100: "y div 100 = (y - 1) div 100 + (if y mod 100 = 0 then 1 else 0)"
    using div_step [of 100 y] by simp
  have d400: "y div 400 = (y - 1) div 400 + (if y mod 400 = 0 then 1 else 0)"
    using div_step [of 400 y] by simp
  have "days_before_year (y + 1) = y * 365 + y div 4 - y div 100 + y div 400"
    by (simp add: days_before_year_def)
  also have "\<dots> = days_before_year y + 365 + (if y mod 4 = 0 then 1 else 0)
      - (if y mod 100 = 0 then 1 else 0) + (if y mod 400 = 0 then 1 else 0)"
    unfolding d4 d100 d400 by (simp add: days_before_year_def algebra_simps)
  also have "\<dots> = days_before_year y + (if is_leap y then 366 else 365)"
    unfolding is_leap_def by (rule leap_count) (fact mod_100_400 mod_4_100)+
  finally show ?thesis .
qed

lemma month_range:
  "1 \<le> m \<Longrightarrow> m \<le> 12 \<Longrightarrow>
   m = 1 \<or> m = 2 \<or> m = 3 \<or> m = 4 \<or> m = 5 \<or> m = 6 \<or> m = 7 \<or> m = 8 \<or> m = 9 \<or> m = 10
     \<or> m = 11 \<or> m = (12::int)"
  by arith

lemma days_before_month_step:
  assumes "1 \<le> m" and "m \<le> 11"
  shows "days_before_month y (m + 1) = days_before_month y m + days_in_month y m"
proof -
  have "m = 1 \<or> m = 2 \<or> m = 3 \<or> m = 4 \<or> m = 5 \<or> m = 6 \<or> m = 7 \<or> m = 8 \<or> m = 9
      \<or> m = 10 \<or> m = 11"
    using assms by arith
  then show ?thesis
    by (elim disjE) (simp_all add: days_before_month_def days_in_month_def)
qed

lemma days_before_month_first: "days_before_month y 1 = 0"
  by (simp add: days_before_month_def)

lemma days_before_month_last:
  "days_before_month y 12 + 31 = (if is_leap y then 366 else 365)"
  by (simp add: days_before_month_def)

lemma next_day_Some:
  assumes v: "valid_date y m d" and n: "next_day (y, m, d) = Some (y', m', d')"
  shows "valid_date y' m' d' \<and> ymd2ord y' m' d' = ymd2ord y m d + 1"
proof (cases "d < days_in_month y m")
  case True
  with n have "y' = y" "m' = m" "d' = d + 1"
    by (simp_all add: next_day_def)
  with v True show ?thesis
    by (simp add: valid_date_def ymd2ord_def)
next
  case False
  with v have d: "d = days_in_month y m"
    by (simp add: valid_date_def)
  show ?thesis
  proof (cases "m < 12")
    case True
    with n False have e: "y' = y" "m' = m + 1" "d' = 1"
      by (simp_all add: next_day_def)
    have "1 \<le> m" "m \<le> 11"
      using v True by (simp_all add: valid_date_def)
    then have "days_before_month y (m + 1) = days_before_month y m + days_in_month y m"
      by (rule days_before_month_step)
    with v True days_in_month_bounds [of y "m + 1"] show ?thesis
      unfolding e d by (simp add: valid_date_def ymd2ord_def)
  next
    case m12: False
    with v have m: "m = 12"
      by (simp add: valid_date_def)
    from n False m12 have y: "y < 9999"
      by (simp add: next_day_def split: if_splits)
    with n False m12 have e: "y' = y + 1" "m' = 1" "d' = 1"
      by (simp_all add: next_day_def)
    have d31: "d = 31"
      unfolding d m by (simp add: days_in_month_def)
    have "ymd2ord (y + 1) 1 1 = ymd2ord y 12 31 + 1"
      using days_before_month_last [of y]
      by (simp add: ymd2ord_def days_before_year_step days_before_month_first)
    with v y show ?thesis
      unfolding e m d31 by (simp add: valid_date_def days_in_month_def)
  qed
qed

lemma next_day_None:
  assumes v: "valid_date y m d" and n: "next_day (y, m, d) = None"
  shows "y = 9999 \<and> m = 12 \<and> d = 31"
proof -
  from n have a: "\<not> d < days_in_month y m" "\<not> m < 12" "\<not> y < 9999"
    by (simp_all add: next_day_def split: if_splits)
  with v have "m = 12" "y = 9999"
    by (simp_all add: valid_date_def)
  moreover from this a v have "d = 31"
    by (simp add: valid_date_def days_in_month_def)
  ultimately show ?thesis by simp
qed

lemma prev_day_Some:
  assumes v: "valid_date y m d" and n: "prev_day (y, m, d) = Some (y', m', d')"
  shows "valid_date y' m' d' \<and> ymd2ord y' m' d' = ymd2ord y m d - 1"
proof (cases "1 < d")
  case True
  with n have "y' = y" "m' = m" "d' = d - 1"
    by (simp_all add: prev_day_def)
  with v True show ?thesis
    by (simp add: valid_date_def ymd2ord_def)
next
  case False
  with v have d: "d = 1"
    by (simp add: valid_date_def)
  show ?thesis
  proof (cases "1 < m")
    case True
    with n False have e: "y' = y" "m' = m - 1" "d' = days_in_month y (m - 1)"
      by (auto simp add: prev_day_def)
    have "1 \<le> m - 1" "m - 1 \<le> 11"
      using v True by (simp_all add: valid_date_def)
    then have "days_before_month y (m - 1 + 1) = days_before_month y (m - 1)
        + days_in_month y (m - 1)"
      by (rule days_before_month_step)
    with v True days_in_month_bounds [of y "m - 1"] show ?thesis
      unfolding e d by (simp add: valid_date_def ymd2ord_def)
  next
    case m1: False
    with v have m: "m = 1"
      by (simp add: valid_date_def)
    from n False m1 have y: "1 < y"
      by (simp add: prev_day_def split: if_splits)
    with n False m1 have e: "y' = y - 1" "m' = 12" "d' = 31"
      by (simp_all add: prev_day_def)
    have "ymd2ord (y - 1) 12 31 = ymd2ord y 1 1 - 1"
      using days_before_month_last [of "y - 1"] days_before_year_step [of "y - 1"]
      by (simp add: ymd2ord_def days_before_month_first)
    with v y show ?thesis
      unfolding e m d by (simp add: valid_date_def days_in_month_def)
  qed
qed

lemma prev_day_None:
  assumes v: "valid_date y m d" and n: "prev_day (y, m, d) = None"
  shows "y = 1 \<and> m = 1 \<and> d = 1"
proof -
  from n have "\<not> 1 < d" "\<not> 1 < m" "\<not> 1 < y"
    by (simp_all add: prev_day_def split: if_splits)
  with v show ?thesis
    by (simp add: valid_date_def)
qed

lemma ymd2ord_last: "ymd2ord 9999 12 31 = 3652059"
  by (simp add: ymd2ord_def days_before_year_def days_before_month_def is_leap_def)

lemma ymd2ord_first: "ymd2ord 1 1 1 = 1"
  by (simp add: ymd2ord_def days_before_year_def days_before_month_def)

lemma iterate_next_day:
  "valid_date y m d \<Longrightarrow>
   (case iterate_opt n next_day (y, m, d) of
      None \<Rightarrow> 3652059 < ymd2ord y m d + int n
    | Some (y', m', d') \<Rightarrow> valid_date y' m' d' \<and> ymd2ord y' m' d' = ymd2ord y m d + int n)"
proof (induction n arbitrary: y m d)
  case 0
  then show ?case by simp
next
  case (Suc n)
  show ?case
  proof (cases "next_day (y, m, d)")
    case None
    have it: "iterate_opt (Suc n) next_day (y, m, d) = None"
      by (simp add: None)
    from next_day_None [OF Suc.prems None] have "ymd2ord y m d = 3652059"
      by (simp add: ymd2ord_last)
    then show ?thesis
      unfolding it by simp
  next
    case (Some x)
    obtain y1 m1 d1 where x: "x = (y1, m1, d1)" by (cases x)
    note s = next_day_Some [OF Suc.prems Some [unfolded x]]
    from Suc.IH [of y1 m1 d1] s show ?thesis
      by (simp add: Some x split: option.splits prod.splits)
  qed
qed

lemma iterate_prev_day:
  "valid_date y m d \<Longrightarrow>
   (case iterate_opt n prev_day (y, m, d) of
      None \<Rightarrow> ymd2ord y m d - int n < 1
    | Some (y', m', d') \<Rightarrow> valid_date y' m' d' \<and> ymd2ord y' m' d' = ymd2ord y m d - int n)"
proof (induction n arbitrary: y m d)
  case 0
  then show ?case by simp
next
  case (Suc n)
  show ?case
  proof (cases "prev_day (y, m, d)")
    case None
    have it: "iterate_opt (Suc n) prev_day (y, m, d) = None"
      by (simp add: None)
    from prev_day_None [OF Suc.prems None] have "ymd2ord y m d = 1"
      by (simp add: ymd2ord_first)
    then show ?thesis
      unfolding it by simp
  next
    case (Some x)
    obtain y1 m1 d1 where x: "x = (y1, m1, d1)" by (cases x)
    note s = prev_day_Some [OF Suc.prems Some [unfolded x]]
    from Suc.IH [of y1 m1 d1] s show ?thesis
      by (simp add: Some x split: option.splits prod.splits)
  qed
qed

lemma add_days_result:
  assumes "valid_date y m d"
  shows "case add_days (y, m, d) q of
      None \<Rightarrow> ymd2ord y m d + q < 1 \<or> 3652059 < ymd2ord y m d + q
    | Some (y', m', d') \<Rightarrow> valid_date y' m' d' \<and> ymd2ord y' m' d' = ymd2ord y m d + q"
proof (cases "0 \<le> q")
  case True
  with iterate_next_day [OF assms, of "nat q"] show ?thesis
    by (simp add: add_days_def split: option.splits prod.splits)
next
  case False
  with iterate_prev_day [OF assms, of "nat (- q)"] show ?thesis
    by (simp add: add_days_def split: option.splits prod.splits)
qed

lemma time_fields:
  fixes r :: int
  assumes "0 \<le> r" and "r < 86400000000"
  defines "H \<equiv> r div 3600000000" and "M \<equiv> (r div 60000000) mod 60"
    and "S \<equiv> (r div 1000000) mod 60" and "U \<equiv> r mod 1000000"
  shows "0 \<le> H \<and> H < 24 \<and> 0 \<le> M \<and> M < 60 \<and> 0 \<le> S \<and> S < 60 \<and> 0 \<le> U \<and> U < 1000000
    \<and> ((H * 60 + M) * 60 + S) * 1000000 + U = r"
proof -
  define s where "s = r div 1000000"
  define t where "t = s div 60"
  have r: "s * 1000000 + U = r"
    unfolding s_def U_def by simp
  have U: "0 \<le> U" "U < 1000000"
    unfolding U_def by simp_all
  have s: "0 \<le> s" "s < 86400"
    using r U assms(1,2) by linarith+
  have e1: "r div 60000000 = t"
    using zdiv_zmult2_eq [of 60 r 1000000] by (simp add: t_def s_def)
  have e2: "r div 3600000000 = t div 60"
    using zdiv_zmult2_eq [of 60 r 60000000] e1 by simp
  have st: "t * 60 + S = s"
    unfolding S_def t_def s_def [symmetric] by simp
  have S: "0 \<le> S" "S < 60"
    unfolding S_def by simp_all
  have t: "0 \<le> t" "t < 1440"
    using st S s by linarith+
  have th: "H * 60 + M = t"
    unfolding H_def M_def e1 e2 by simp
  have M: "0 \<le> M" "M < 60"
    unfolding M_def by simp_all
  have H: "0 \<le> H" "H < 24"
    using th M t by linarith+
  show ?thesis
    using H M S U th st r by simp
qed

subsection \<open>Moving a datetime\<close>

lemma to_microseconds_min: "to_microseconds datetime_min = 86400000000"
  by (simp add: to_microseconds_def datetime_min_def ymd2ord_first)

lemma to_microseconds_max: "to_microseconds datetime_max = 315537983999999999"
  by (simp add: to_microseconds_def datetime_max_def ymd2ord_last)

lemma below_first_day:
  fixes n r :: int
  shows "r < 86400000000 \<Longrightarrow> n < 1 \<Longrightarrow> n * 86400000000 + r < 86400000000"
  by linarith

lemma above_last_day:
  fixes n r :: int
  shows "0 \<le> r \<Longrightarrow> 3652059 < n \<Longrightarrow> 315537983999999999 < n * 86400000000 + r"
  by linarith

lemma datetime_add_result:
  assumes v: "valid_datetime dt"
  shows "case datetime_add dt delta of
      Inl e \<Rightarrow> e = OverflowError
        \<and> (to_microseconds dt + delta < to_microseconds datetime_min
            \<or> to_microseconds datetime_max < to_microseconds dt + delta)
    | Inr dt' \<Rightarrow> valid_datetime dt' \<and> to_microseconds dt' = to_microseconds dt + delta"
proof -
  define total where
    "total = ((hour dt * 60 + minute dt) * 60 + second dt) * 1000000 + microsecond dt + delta"
  define q where "q = total div 86400000000"
  define r where "r = total mod 86400000000"
  have r: "0 \<le> r" "r < 86400000000"
    unfolding r_def by simp_all
  have tq: "total = q * 86400000000 + r"
    unfolding q_def r_def by simp
  have tm: "to_microseconds dt + delta
      = (ymd2ord (year dt) (month dt) (day dt) + q) * 86400000000 + r"
    unfolding to_microseconds_def using tq by (simp add: total_def algebra_simps)
  have vd: "valid_date (year dt) (month dt) (day dt)"
    using v by (simp add: valid_datetime_def)
  note tf = time_fields [OF r]
  have da: "datetime_add dt delta =
     (case add_days (year dt, month dt, day dt) q of
        None \<Rightarrow> Inl OverflowError
      | Some (y, m, d) \<Rightarrow>
          Inr \<lparr>year = y, month = m, day = d, hour = r div 3600000000,
               minute = (r div 60000000) mod 60, second = (r div 1000000) mod 60,
               microsecond = r mod 1000000\<rparr>)"
    by (simp only: datetime_add_def Let_def total_def q_def r_def)
  show ?thesis
  proof (cases "add_days (year dt, month dt, day dt) q")
    case None
    with add_days_result [OF vd, of q]
    have "ymd2ord (year dt) (month dt) (day dt) + q < 1
        \<or> 3652059 < ymd2ord (year dt) (month dt) (day dt) + q"
      by simp
    then have "to_microseconds dt + delta < 86400000000
        \<or> 315537983999999999 < to_microseconds dt + delta"
      unfolding tm using r
      by (elim disjE) (simp_all only: below_first_day above_last_day simp_thms)
    then show ?thesis
      by (simp add: da None to_microseconds_min to_microseconds_max)
  next
    case (Some x)
    obtain y m d where x: "x = (y, m, d)" by (cases x)
    from add_days_result [OF vd, of q] Some x
    have s: "valid_date y m d" "ymd2ord y m d = ymd2ord (year dt) (month dt) (day dt) + q"
      by simp_all
    show ?thesis
      using s tf tm by (simp add: da Some x valid_datetime_def to_microseconds_def)
  qed
qed

subsection \<open>The order of timestamps is the order of instants\<close>

lemma field_less:
  assumes "0 \<le> x" "x < 10 ^ w" "0 \<le> y" "y < 10 ^ w"
  shows "fixed_digits w x @ c # us < fixed_digits w y @ c # vs \<longleftrightarrow> x < y \<or> (x = y \<and> us < vs)"
proof -
  have "fixed_digits w x @ c # us < fixed_digits w y @ c # vs \<longleftrightarrow>
      fixed_digits w x < fixed_digits w y
      \<or> (fixed_digits w x = fixed_digits w y \<and> c # us < c # vs)"
    by (rule append_less_append) simp
  also have "fixed_digits w x < fixed_digits w y \<longleftrightarrow> x < y"
    using assms by (rule fixed_digits_less)
  also have "fixed_digits w x = fixed_digits w y \<longleftrightarrow> x = y"
    using fixed_digits_inj [OF assms] by auto
  finally show ?thesis
    by simp
qed

lemma lex_step: "x < y \<or> x \<le> y \<and> P \<longleftrightarrow> x < y \<or> x = y \<and> P" for x y :: int
  by auto

lemma iso_micro_less:
  assumes a: "valid_datetime a" and b: "valid_datetime b"
  shows "iso_micro a < iso_micro b \<longleftrightarrow> dt_key a < dt_key b"
proof -
  note ba = valid_datetime_bounds [OF a] and bb = valid_datetime_bounds [OF b]
  have "iso_micro a < iso_micro b \<longleftrightarrow>
     year a < year b \<or> (year a = year b \<and>
     (month a < month b \<or> (month a = month b \<and>
     (day a < day b \<or> (day a = day b \<and>
     (hour a < hour b \<or> (hour a = hour b \<and>
     (minute a < minute b \<or> (minute a = minute b \<and>
     (second a < second b \<or> (second a = second b \<and>
      microsecond a < microsecond b)))))))))))"
    unfolding iso_micro_fixed [OF a] iso_micro_fixed [OF b]
      iso_seconds_fixed [OF a] iso_seconds_fixed [OF b] append_assoc append_Cons
    using ba bb by (simp only: field_less fixed_digits_less)
  also have "\<dots> \<longleftrightarrow> dt_key a < dt_key b"
    unfolding dt_key_def less_prod_simp lex_step ..
  finally show ?thesis .
qed

lemma year_length_pos: "0 \<le> (if is_leap y then 366 else (365::int))"
  by simp

lemma days_before_year_mono:
  assumes "y \<le> y'"
  shows "days_before_year y \<le> days_before_year y'"
  using assms
proof (induction y' rule: int_ge_induct)
  case base
  show ?case by simp
next
  case (step i)
  then show ?case
    by (simp add: days_before_year_step)
qed

lemma days_before_month_mono:
  assumes "1 \<le> m" and "m \<le> m'"
  shows "m' \<le> 12 \<longrightarrow> days_before_month y m \<le> days_before_month y m'"
  using assms(2)
proof (induction m' rule: int_ge_induct)
  case base
  show ?case by simp
next
  case (step i)
  show ?case
  proof
    assume "i + 1 \<le> 12"
    then have i: "i \<le> 11" by simp
    have "1 \<le> i" using assms(1) step.hyps by simp
    then have "days_before_month y (i + 1) = days_before_month y i + days_in_month y i"
      using i by (rule days_before_month_step)
    with step.IH i days_in_month_bounds [of y i]
    show "days_before_month y m \<le> days_before_month y (i + 1)"
      by simp
  qed
qed

lemma month_end_bound:
  assumes "1 \<le> m" and "m < m'" and "m' \<le> 12"
  shows "days_before_month y m + days_in_month y m \<le> days_before_month y m'"
proof -
  have "days_before_month y (m + 1) = days_before_month y m + days_in_month y m"
    using assms by (intro days_before_month_step) simp_all
  moreover have "days_before_month y (m + 1) \<le> days_before_month y m'"
    using days_before_month_mono [of "m + 1" m' y] assms by simp
  ultimately show ?thesis by simp
qed

lemma ymd2ord_year_bounds:
  assumes "valid_date y m d"
  shows "days_before_year y < ymd2ord y m d" and "ymd2ord y m d \<le> days_before_year (y + 1)"
proof -
  have m: "1 \<le> m" "m \<le> 12" and d: "1 \<le> d" "d \<le> days_in_month y m"
    using assms by (simp_all add: valid_date_def)
  have "days_before_month y 1 \<le> days_before_month y m"
    using days_before_month_mono [of 1 m y] m by simp
  then have lo: "0 \<le> days_before_month y m"
    by (simp add: days_before_month_first)
  with d show "days_before_year y < ymd2ord y m d"
    by (simp add: ymd2ord_def)
  have "days_before_month y m + days_in_month y m \<le> days_before_month y 12 + 31"
  proof (cases "m = 12")
    case True
    then show ?thesis by (simp add: days_in_month_def)
  next
    case False
    with m have "m < 12" by simp
    from month_end_bound [OF m(1) this, of y] show ?thesis by simp
  qed
  with d days_before_month_last [of y]
  show "ymd2ord y m d \<le> days_before_year (y + 1)"
    by (simp add: ymd2ord_def days_before_year_step split: if_splits)
qed

lemma ymd2ord_mono:
  assumes a: "valid_date y m d" and b: "valid_date y' m' d'"
    and lt: "y < y' \<or> (y = y' \<and> (m < m' \<or> (m = m' \<and> d < d')))"
  shows "ymd2ord y m d < ymd2ord y' m' d'"
proof -
  consider (year) "y < y'" | (month) "y = y'" "m < m'" | (day) "y = y'" "m = m'" "d < d'"
    using lt by blast
  then show ?thesis
  proof cases
    case year
    then have "days_before_year (y + 1) \<le> days_before_year y'"
      by (intro days_before_year_mono) simp
    with ymd2ord_year_bounds(2) [OF a] ymd2ord_year_bounds(1) [OF b] show ?thesis
      by simp
  next
    case month
    have "days_before_month y m + days_in_month y m \<le> days_before_month y m'"
      using a b month by (intro month_end_bound) (simp_all add: valid_date_def)
    with a b month show ?thesis
      by (simp add: ymd2ord_def valid_date_def)
  next
    case day
    then show ?thesis
      by (simp add: ymd2ord_def)
  qed
qed

lemma to_microseconds_split:
  "to_microseconds dt = ymd2ord (year dt) (month dt) (day dt) * 86400000000 + time_of_day dt"
  by (simp add: to_microseconds_def time_of_day_def)

lemma time_of_day_linear:
  "time_of_day dt =
     hour dt * 3600000000 + minute dt * 60000000 + second dt * 1000000 + microsecond dt"
  by (simp add: time_of_day_def algebra_simps)

lemma time_of_day_bounds:
  assumes "valid_datetime dt"
  shows "0 \<le> time_of_day dt" and "time_of_day dt < 86400000000"
  using assms unfolding time_of_day_linear valid_datetime_def by linarith+

lemma time_of_day_mono:
  assumes "valid_datetime a" and "valid_datetime b"
    and "hour a < hour b \<or> (hour a = hour b \<and> (minute a < minute b \<or> (minute a = minute b
      \<and> (second a < second b \<or> (second a = second b \<and> microsecond a < microsecond b)))))"
  shows "time_of_day a < time_of_day b"
proof -
  consider "hour a < hour b" | "hour a = hour b" "minute a < minute b"
    | "hour a = hour b" "minute a = minute b" "second a < second b"
    | "hour a = hour b" "minute a = minute b" "second a = second b"
      "microsecond a < microsecond b"
    using assms(3) by blast
  then show ?thesis
    using assms(1,2) unfolding time_of_day_linear valid_datetime_def
    by cases linarith+
qed

lemma day_scale:
  fixes m n s t :: int
  shows "m < n \<Longrightarrow> s < 86400000000 \<Longrightarrow> 0 \<le> t \<Longrightarrow> m * 86400000000 + s < n * 86400000000 + t"
  by linarith

lemma to_microseconds_mono:
  assumes a: "valid_datetime a" and b: "valid_datetime b" and lt: "dt_key a < dt_key b"
  shows "to_microseconds a < to_microseconds b"
proof -
  have va: "valid_date (year a) (month a) (day a)" and vb: "valid_date (year b) (month b) (day b)"
    using a b by (simp_all add: valid_datetime_def)
  from lt have c: "year a < year b \<or> (year a = year b \<and>
     (month a < month b \<or> (month a = month b \<and>
     (day a < day b \<or> (day a = day b \<and>
     (hour a < hour b \<or> (hour a = hour b \<and>
     (minute a < minute b \<or> (minute a = minute b \<and>
     (second a < second b \<or> (second a = second b \<and>
      microsecond a < microsecond b)))))))))))"
    unfolding dt_key_def less_prod_simp lex_step .
  then consider
      (date) "year a < year b \<or> (year a = year b \<and>
        (month a < month b \<or> (month a = month b \<and> day a < day b)))"
    | (time) "year a = year b" "month a = month b" "day a = day b"
        "hour a < hour b \<or> (hour a = hour b \<and> (minute a < minute b \<or> (minute a = minute b
          \<and> (second a < second b \<or> (second a = second b \<and> microsecond a < microsecond b)))))"
    by blast
  then show ?thesis
  proof cases
    case date
    have "ymd2ord (year a) (month a) (day a) < ymd2ord (year b) (month b) (day b)"
      using va vb date by (rule ymd2ord_mono)
    then show ?thesis
      unfolding to_microseconds_split
      using time_of_day_bounds(2) [OF a] time_of_day_bounds(1) [OF b] by (rule day_scale)
  next
    case time
    from time_of_day_mono [OF a b time(4)] time(1-3) show ?thesis
      unfolding to_microseconds_split by simp
  qed
qed

lemma dt_key_inj: "dt_key a = dt_key b \<Longrightarrow> a = b"
  by (simp add: dt_key_def)

lemma to_microseconds_less_iff:
  assumes a: "valid_datetime a" and b: "valid_datetime b"
  shows "to_microseconds a < to_microseconds b \<longleftrightarrow> iso_micro a < iso_micro b"
proof -
  have "to_microseconds a < to_microseconds b \<longleftrightarrow> dt_key a < dt_key b"
  proof
    assume lt: "to_microseconds a < to_microseconds b"
    show "dt_key a < dt_key b"
    proof (rule ccontr)
      assume "\<not> dt_key a < dt_key b"
      then consider "dt_key b < dt_key a" | "dt_key a = dt_key b"
        by (auto simp add: not_less le_less)
      then show False
      proof cases
        case 1
        from to_microseconds_mono [OF b a this] lt show False by simp
      next
        case 2
        then have "a = b" by (rule dt_key_inj)
        with lt show False by simp
      qed
    qed
  next
    assume "dt_key a < dt_key b"
    with a b show "to_microseconds a < to_microseconds b"
      by (rule to_microseconds_mono)
  qed
  then show ?thesis
    by (simp add: iso_micro_less [OF a b])
qed

lemma to_microseconds_inj:
  assumes a: "valid_datetime a" and b: "valid_datetime b"
    and eq: "to_microseconds a = to_microseconds b"
  shows "a = b"
proof -
  have "\<not> dt_key a < dt_key b" "\<not> dt_key b < dt_key a"
    using to_microseconds_mono [OF a b] to_microseconds_mono [OF b a] eq by auto
  then have "dt_key a = dt_key b"
    by (simp add: not_less antisym)
  then show ?thesis by (rule dt_key_inj)
qed

subsection \<open>The offset operation on well-formed timestamps\<close>

lemma strip_digits:
  assumes "\<And>c. c \<in> set s \<Longrightarrow> is_digit c"
  shows "strip s = s"
proof -
  have ns: "\<not> is_space c" if "c \<in> set s" for c
    using assms [OF that] is_digit_not_separator by blast
  have a: "dropWhile is_space s = s"
    by (rule dropWhile_id) (rule ns)
  have b: "dropWhile is_space (rev s) = rev s"
    by (rule dropWhile_id) (simp add: ns)
  show ?thesis
    unfolding strip_def a b by simp
qed

lemma py_int_fixed:
  assumes "0 \<le> u" and "u < 10 ^ w" and "0 < w"
  shows "py_int (fixed_digits w u) = Inr u"
proof -
  let ?s = "fixed_digits w u"
  have s: "strip ?s = ?s"
    by (rule strip_digits) (rule fixed_digits_chars)
  have ne: "?s \<noteq> []"
    using assms(3) by (rule fixed_digits_nonempty)
  then have "hd ?s \<in> set ?s" by simp
  then have "is_digit (hd ?s)" by (rule fixed_digits_chars)
  then have hd: "hd ?s \<noteq> CHR ''-''" "hd ?s \<noteq> CHR ''+''"
    using is_digit_not_separator by blast+
  show ?thesis
    unfolding py_int_def s Let_def
    using ne hd digits_val_fixed_digits [OF assms(1,2)]
    by (simp add: fixed_digits_all_digits)
qed

lemma py_int_zero: "py_int ''0'' = Inr 0"
  by code_simp

lemma fmt_d_zero: "fmt_d 6 0 = ''000000''"
  by code_simp

lemma partition_iso_micro:
  assumes "valid_datetime dt"
  shows "partition_str (CHR ''.'') (iso_micro dt)
     = (iso_seconds dt, ''.'', fixed_digits 6 (microsecond dt))"
  unfolding iso_micro_fixed [OF assms]
  by (rule partition_str_found) (rule iso_seconds_no_dot [OF assms])

lemma partition_iso_seconds:
  assumes "valid_datetime dt"
  shows "partition_str (CHR ''.'') (iso_seconds dt) = (iso_seconds dt, [], [])"
  by (rule partition_str_absent) (rule iso_seconds_no_dot [OF assms])

lemma iso_micro_update:
  "iso_micro (dt\<lparr>microsecond := n\<rparr>) = iso_seconds dt @ ''.'' @ fmt_d 6 n"
  by (simp add: iso_micro_def iso_seconds_def)

lemma iso_micro_nonempty: "iso_micro dt \<noteq> []"
  by (simp add: iso_micro_def)

lemma add_microseconds_unfold:
  assumes v: "valid_datetime dt"
  shows "add_microseconds (iso_micro dt) delta =
     (if 0 \<le> microsecond dt + delta \<and> microsecond dt + delta < 1000000
      then Inr (iso_micro (dt\<lparr>microsecond := microsecond dt + delta\<rparr>))
      else case datetime_add dt delta of
             Inl e \<Rightarrow> Inl e
           | Inr moved \<Rightarrow>
               Inr (if CHR ''.'' \<in> set (isoformat moved) then isoformat moved
                    else isoformat moved @ ''.000000''))"
proof -
  note b = valid_datetime_bounds [OF v]
  have ne: "fixed_digits 6 (microsecond dt) \<noteq> []"
    by (rule fixed_digits_nonempty) simp
  have pi: "py_int (fixed_digits 6 (microsecond dt)) = Inr (microsecond dt)"
    using b by (intro py_int_fixed) simp_all
  have st: "str_int n = dec_digits n" if "0 \<le> n" for n
    using that by (simp add: str_int_def)
  show ?thesis
    unfolding add_microseconds_def partition_iso_micro [OF v]
    using ne by (simp add: pi strptime_iso_micro [OF v] iso_micro_update fmt_d_def Let_def
        split: sum.splits)
qed

lemma isoformat_padded:
  assumes "valid_datetime m"
  shows "(if CHR ''.'' \<in> set (isoformat m) then isoformat m else isoformat m @ ''.000000'')
     = iso_micro m"
proof (cases "microsecond m = 0")
  case True
  have "CHR ''.'' \<notin> set (iso_seconds m)"
    using iso_seconds_no_dot [OF assms] by blast
  with True show ?thesis
    by (simp add: isoformat_def iso_micro_def fmt_d_zero)
next
  case False
  then show ?thesis
    by (simp add: isoformat_def iso_micro_def)
qed

lemma days_before_year_ends: "days_before_year 1 = 0" "days_before_year 10000 = 3652059"
  by (simp_all add: days_before_year_def)

lemma ymd2ord_range:
  assumes "valid_date y m d"
  shows "1 \<le> ymd2ord y m d" and "ymd2ord y m d \<le> 3652059"
proof -
  have y: "1 \<le> y" "y + 1 \<le> 10000"
    using assms by (simp_all add: valid_date_def)
  from days_before_year_mono [OF y(1)] ymd2ord_year_bounds(1) [OF assms]
  show "1 \<le> ymd2ord y m d"
    by (simp add: days_before_year_ends)
  from days_before_year_mono [OF y(2)] ymd2ord_year_bounds(2) [OF assms]
  show "ymd2ord y m d \<le> 3652059"
    by (simp add: days_before_year_ends)
qed

lemma day_scale_le:
  fixes n t :: int
  shows "1 \<le> n \<Longrightarrow> 0 \<le> t \<Longrightarrow> 86400000000 \<le> n * 86400000000 + t"
    and "n \<le> 3652059 \<Longrightarrow> t < 86400000000 \<Longrightarrow> n * 86400000000 + t \<le> 315537983999999999"
  by linarith+

lemma to_microseconds_range:
  assumes "valid_datetime dt"
  shows "to_microseconds datetime_min \<le> to_microseconds dt"
    and "to_microseconds dt \<le> to_microseconds datetime_max"
proof -
  have vd: "valid_date (year dt) (month dt) (day dt)"
    using assms by (simp add: valid_datetime_def)
  show "to_microseconds datetime_min \<le> to_microseconds dt"
    unfolding to_microseconds_min to_microseconds_split [of dt]
    using ymd2ord_range(1) [OF vd] time_of_day_bounds(1) [OF assms] by (rule day_scale_le)
  show "to_microseconds dt \<le> to_microseconds datetime_max"
    unfolding to_microseconds_max to_microseconds_split [of dt]
    using ymd2ord_range(2) [OF vd] time_of_day_bounds(2) [OF assms] by (rule day_scale_le)
qed

lemma valid_datetime_ends: "valid_datetime datetime_min" "valid_datetime datetime_max"
  by (simp_all add: valid_datetime_def valid_date_def datetime_min_def datetime_max_def
      days_in_month_def)

lemma datetime_add_in_range:
  assumes v: "valid_datetime dt" and w: "valid_datetime m"
    and eq: "to_microseconds m = to_microseconds dt + delta"
  shows "datetime_add dt delta = Inr m"
proof (cases "datetime_add dt delta")
  case (Inl e)
  with datetime_add_result [OF v, of delta] eq to_microseconds_range [OF w]
  show ?thesis by simp
next
  case (Inr m')
  with datetime_add_result [OF v, of delta]
  have "valid_datetime m'" "to_microseconds m' = to_microseconds dt + delta"
    by simp_all
  with w eq have "m' = m"
    by (intro to_microseconds_inj) simp_all
  with Inr show ?thesis by simp
qed

lemma add_microseconds_is_datetime_add:
  assumes v: "valid_datetime dt"
  shows "add_microseconds (iso_micro dt) delta =
     (case datetime_add dt delta of Inl e \<Rightarrow> Inl e | Inr moved \<Rightarrow> Inr (iso_micro moved))"
proof (cases "0 \<le> microsecond dt + delta \<and> microsecond dt + delta < 1000000")
  case True
  let ?m = "dt\<lparr>microsecond := microsecond dt + delta\<rparr>"
  have w: "valid_datetime ?m"
    using v True by (simp add: valid_datetime_def)
  have "to_microseconds ?m = to_microseconds dt + delta"
    by (simp add: to_microseconds_def)
  with v w have "datetime_add dt delta = Inr ?m"
    by (rule datetime_add_in_range)
  with True show ?thesis
    by (simp add: add_microseconds_unfold [OF v])
next
  case False
  show ?thesis
  proof (cases "datetime_add dt delta")
    case (Inl e)
    with False show ?thesis
      by (simp add: add_microseconds_unfold [OF v])
  next
    case (Inr m)
    with datetime_add_result [OF v, of delta] have "valid_datetime m"
      by simp
    from isoformat_padded [OF this] False Inr show ?thesis
      by (auto simp add: add_microseconds_unfold [OF v])
  qed
qed

lemma add_microseconds_no_fraction:
  assumes v: "valid_datetime dt" and z: "microsecond dt = 0"
  shows "add_microseconds (iso_seconds dt) delta = add_microseconds (iso_micro dt) delta"
proof -
  have im: "iso_micro dt = iso_seconds dt @ ''.000000''"
    using z by (simp add: iso_micro_def fmt_d_zero)
  have pi: "py_int (fixed_digits 6 0) = Inr 0"
    by (rule py_int_fixed) simp_all
  have ne: "fixed_digits 6 0 \<noteq> []"
    by (rule fixed_digits_nonempty) simp
  have l: "add_microseconds (iso_seconds dt) delta =
     (if 0 \<le> delta \<and> delta < 1000000
      then Inr (iso_seconds dt @ ''.'' @ zfill 6 (str_int delta))
      else case strptime (iso_micro dt) of
             Inl e \<Rightarrow> Inl e
           | Inr parsed \<Rightarrow>
               (case datetime_add parsed delta of
                  Inl e \<Rightarrow> Inl e
                | Inr moved \<Rightarrow>
                    Inr (if CHR ''.'' \<in> set (isoformat moved) then isoformat moved
                         else isoformat moved @ ''.000000'')))"
    unfolding add_microseconds_def partition_iso_seconds [OF v] im
    by (simp add: py_int_zero Let_def split: sum.splits)
  have r: "add_microseconds (iso_micro dt) delta =
     (if 0 \<le> delta \<and> delta < 1000000
      then Inr (iso_seconds dt @ ''.'' @ zfill 6 (str_int delta))
      else case strptime (iso_micro dt) of
             Inl e \<Rightarrow> Inl e
           | Inr parsed \<Rightarrow>
               (case datetime_add parsed delta of
                  Inl e \<Rightarrow> Inl e
                | Inr moved \<Rightarrow>
                    Inr (if CHR ''.'' \<in> set (isoformat moved) then isoformat moved
                         else isoformat moved @ ''.000000'')))"
    unfolding add_microseconds_def partition_iso_micro [OF v] z
    using ne by (simp add: pi Let_def split: sum.splits)
  show ?thesis
    unfolding l r ..
qed

lemma succ_exists:
  assumes v: "valid_datetime dt" and n: "dt \<noteq> datetime_max"
  obtains m where "datetime_add dt 1 = Inr m" "valid_datetime m"
    "to_microseconds m = to_microseconds dt + 1"
proof (cases "datetime_add dt 1")
  case (Inl e)
  with datetime_add_result [OF v, of 1] to_microseconds_range [OF v]
  have "to_microseconds dt = to_microseconds datetime_max"
    by simp
  with v valid_datetime_ends(2) have "dt = datetime_max"
    by (intro to_microseconds_inj)
  with n show ?thesis by simp
next
  case (Inr m)
  with datetime_add_result [OF v, of 1] that show ?thesis
    by simp
qed

lemma pred_exists:
  assumes v: "valid_datetime dt" and n: "dt \<noteq> datetime_min"
  obtains m where "datetime_add dt (- 1) = Inr m" "valid_datetime m"
    "to_microseconds m = to_microseconds dt - 1"
proof (cases "datetime_add dt (- 1)")
  case (Inl e)
  with datetime_add_result [OF v, of "- 1"] to_microseconds_range [OF v]
  have "to_microseconds dt = to_microseconds datetime_min"
    by simp
  with v valid_datetime_ends(1) have "dt = datetime_min"
    by (intro to_microseconds_inj)
  with n show ?thesis by simp
next
  case (Inr m)
  with datetime_add_result [OF v, of "- 1"] that show ?thesis
    by simp
qed

lemma gap_after:
  assumes v: "valid_datetime a" and n: "a \<noteq> datetime_max"
  obtains m where "get_fake_timestamp (Some (iso_micro a)) before_bound = Inr (iso_micro m)"
    "valid_datetime m" "to_microseconds m = to_microseconds a + 1"
proof -
  from succ_exists [OF v n] obtain m where m: "datetime_add a 1 = Inr m" "valid_datetime m"
    "to_microseconds m = to_microseconds a + 1" .
  have "get_fake_timestamp (Some (iso_micro a)) before_bound = Inr (iso_micro m)"
    by (simp add: get_fake_timestamp_after iso_micro_nonempty
        add_microseconds_is_datetime_add [OF v] m(1))
  with m that show ?thesis by blast
qed

lemma gap_before:
  assumes v: "valid_datetime b" and n: "b \<noteq> datetime_min"
  obtains m where "get_fake_timestamp None (Some (iso_micro b)) = Inr (iso_micro m)"
    "valid_datetime m" "to_microseconds m = to_microseconds b - 1"
proof -
  from pred_exists [OF v n] obtain m where m: "datetime_add b (- 1) = Inr m" "valid_datetime m"
    "to_microseconds m = to_microseconds b - 1" .
  have "get_fake_timestamp None (Some (iso_micro b)) = Inr (iso_micro m)"
    by (simp add: get_fake_timestamp_before add_microseconds_is_datetime_add [OF v] m(1))
  with m that show ?thesis by blast
qed

lemma ex_datetimes:
  "iso_micro \<lparr>year = 2013, month = 4, day = 1, hour = 0, minute = 0, second = 1,
      microsecond = 999999\<rparr> = ''2013-04-01T00:00:01.999999''"
  "iso_micro \<lparr>year = 2013, month = 4, day = 1, hour = 0, minute = 0, second = 2,
      microsecond = 0\<rparr> = ''2013-04-01T00:00:02.000000''"
  "iso_micro \<lparr>year = 2013, month = 4, day = 1, hour = 0, minute = 0, second = 1,
      microsecond = 0\<rparr> = ''2013-04-01T00:00:01.000000''"
  "iso_seconds \<lparr>year = 2013, month = 4, day = 1, hour = 0, minute = 0, second = 1,
      microsecond = 0\<rparr> = ''2013-04-01T00:00:01''"
  "iso_micro \<lparr>year = 2013, month = 4, day = 1, hour = 0, minute = 0, second = 1,
      microsecond = 123456\<rparr> = ''2013-04-01T00:00:01.123456''"
  "iso_micro \<lparr>year = 2013, month = 4, day = 1, hour = 0, minute = 0, second = 1,
      microsecond = 123458\<rparr> = ''2013-04-01T00:00:01.123458''"
  by code_simp+

lemma ex_valid:
  "valid_datetime \<lparr>year = 2013, month = 4, day = 1, hour = 0, minute = 0, second = 1,
      microsecond = n\<rparr> \<longleftrightarrow> 0 \<le> n \<and> n < 1000000"
  by (simp add: valid_datetime_def valid_date_def days_in_month_def)

lemma to_microseconds_fraction:
  assumes "valid_datetime dt"
  shows "to_microseconds dt mod 1000000 = microsecond dt"
proof -
  have "to_microseconds dt =
      microsecond dt + 1000000 * (ymd2ord (year dt) (month dt) (day dt) * 86400
        + ((hour dt * 60 + minute dt) * 60 + second dt))"
    by (simp add: to_microseconds_def)
  then have "to_microseconds dt mod 1000000 = microsecond dt mod 1000000"
    by (simp only: mod_mult_self2)
  with assms show ?thesis
    by (simp add: valid_datetime_def)
qed

lemma length_iso_micro:
  assumes "valid_datetime dt"
  shows "length (iso_micro dt) = 26"
  unfolding iso_micro_fixed [OF assms] iso_seconds_fixed [OF assms] by simp

subsection \<open>Gap timestamps lie between their bounds\<close>

text \<open>
  Claim C7. The claim says that without a lower bound the gap timestamp is strictly less than
  the upper bound. At the first instant of year 1 there is no earlier timestamp and the
  operation raises \<^verbatim>\<open>OverflowError\<close>:
\<close>

theorem gap_timestamp_order_counterexample:
  "get_fake_timestamp None (Some ''0001-01-01T00:00:00.000000'') = Inl OverflowError"
  by code_simp

text \<open>
  Claim C7, amended. For well-formed timestamps \<open>after\<close> and \<open>before\<close> at least two microseconds
  apart, the gap timestamp is lexicographically strictly greater than \<open>after\<close> and strictly
  less than \<open>before\<close>. Without \<open>after\<close> the result is strictly less than \<open>before\<close>, unless
  \<open>before\<close> is the first instant of year 1; with \<open>after\<close> the result is strictly greater than
  \<open>after\<close>, unless \<open>after\<close> is the last instant of year 9999.
\<close>

theorem gap_timestamp_order:
  assumes a: "valid_datetime a" and b: "valid_datetime b"
  shows "(to_microseconds a + 2 \<le> to_microseconds b \<longrightarrow>
            (\<exists>r. get_fake_timestamp (Some (iso_micro a)) (Some (iso_micro b)) = Inr r
                 \<and> iso_micro a < r \<and> r < iso_micro b))
    \<and> (b \<noteq> datetime_min \<longrightarrow>
            (\<exists>r. get_fake_timestamp None (Some (iso_micro b)) = Inr r \<and> r < iso_micro b))
    \<and> (a \<noteq> datetime_max \<longrightarrow>
            (\<exists>r. get_fake_timestamp (Some (iso_micro a)) before_bound = Inr r
                 \<and> iso_micro a < r))"
proof (intro conjI impI)
  assume gap: "to_microseconds a + 2 \<le> to_microseconds b"
  have "a \<noteq> datetime_max"
    using gap to_microseconds_range(2) [OF b] by auto
  from gap_after [OF a this, of "Some (iso_micro b)"] obtain m where
    m: "get_fake_timestamp (Some (iso_micro a)) (Some (iso_micro b)) = Inr (iso_micro m)"
      "valid_datetime m" "to_microseconds m = to_microseconds a + 1" .
  have "iso_micro a < iso_micro m"
    using m(3) by (simp add: to_microseconds_less_iff [OF a m(2), symmetric])
  moreover have "iso_micro m < iso_micro b"
    using m(3) gap by (simp add: to_microseconds_less_iff [OF m(2) b, symmetric])
  ultimately show "\<exists>r. get_fake_timestamp (Some (iso_micro a)) (Some (iso_micro b)) = Inr r
      \<and> iso_micro a < r \<and> r < iso_micro b"
    using m(1) by blast
next
  assume "b \<noteq> datetime_min"
  from gap_before [OF b this] obtain m where
    m: "get_fake_timestamp None (Some (iso_micro b)) = Inr (iso_micro m)"
      "valid_datetime m" "to_microseconds m = to_microseconds b - 1" .
  have "iso_micro m < iso_micro b"
    using m(3) by (simp add: to_microseconds_less_iff [OF m(2) b, symmetric])
  with m(1) show "\<exists>r. get_fake_timestamp None (Some (iso_micro b)) = Inr r \<and> r < iso_micro b"
    by blast
next
  assume "a \<noteq> datetime_max"
  from gap_after [OF a this, of before_bound] obtain m where
    m: "get_fake_timestamp (Some (iso_micro a)) before_bound = Inr (iso_micro m)"
      "valid_datetime m" "to_microseconds m = to_microseconds a + 1" .
  have "iso_micro a < iso_micro m"
    using m(3) by (simp add: to_microseconds_less_iff [OF a m(2), symmetric])
  with m(1) show "\<exists>r. get_fake_timestamp (Some (iso_micro a)) before_bound = Inr r
      \<and> iso_micro a < r"
    by blast
qed

theorem gap_timestamp_order_witness:
  "valid_datetime \<lparr>year = 2013, month = 4, day = 1, hour = 0, minute = 0, second = 1,
      microsecond = 123456\<rparr>
   \<and> valid_datetime \<lparr>year = 2013, month = 4, day = 1, hour = 0, minute = 0, second = 1,
      microsecond = 123458\<rparr>
   \<and> (\<exists>r. get_fake_timestamp (Some ''2013-04-01T00:00:01.123456'')
            (Some ''2013-04-01T00:00:01.123458'') = Inr r
         \<and> ''2013-04-01T00:00:01.123456'' < r \<and> r < ''2013-04-01T00:00:01.123458'')
   \<and> (\<exists>r. get_fake_timestamp None (Some ''2013-04-01T00:00:01.123458'') = Inr r
         \<and> r < ''2013-04-01T00:00:01.123458'')
   \<and> (\<exists>r. get_fake_timestamp (Some ''2013-04-01T00:00:01.123456'') None = Inr r
         \<and> ''2013-04-01T00:00:01.123456'' < r)"
proof -
  let ?a = "\<lparr>year = 2013, month = 4, day = 1, hour = 0, minute = 0, second = 1,
      microsecond = 123456\<rparr>"
  let ?b = "\<lparr>year = 2013, month = 4, day = 1, hour = 0, minute = 0, second = 1,
      microsecond = 123458\<rparr>"
  have va: "valid_datetime ?a" and vb: "valid_datetime ?b"
    by (simp_all add: ex_valid)
  have gap: "to_microseconds ?a + 2 \<le> to_microseconds ?b"
    by (simp add: to_microseconds_def)
  have na: "?a \<noteq> datetime_max" and nb: "?b \<noteq> datetime_min"
    by (simp_all add: datetime_max_def datetime_min_def)
  note t = gap_timestamp_order [OF va vb, unfolded ex_datetimes]
  from t [THEN conjunct1, THEN mp, OF gap]
    t [THEN conjunct2, THEN conjunct1, THEN mp, OF nb]
    t [THEN conjunct2, THEN conjunct2, THEN mp, OF na, of None]
    va vb
  show ?thesis by blast
qed

subsection \<open>Fractional parts of up to six digits\<close>

lemma digit_val_range:
  assumes "is_digit c"
  shows "0 \<le> digit_val c \<and> digit_val c \<le> 9"
proof -
  have "48 \<le> (of_char c :: nat)" "(of_char c :: nat) \<le> 57"
    using assms by (simp_all add: is_digit_def less_eq_char_def)
  then have "48 \<le> int (of_char c)" "int (of_char c) \<le> 57"
    by simp_all
  then show ?thesis
    by (simp add: digit_val_def of_nat_of_char)
qed

lemma digits_val_bounds:
  "list_all is_digit s \<Longrightarrow> 0 \<le> digits_val s \<and> digits_val s < 10 ^ length s"
proof (induction s rule: rev_induct)
  case Nil
  show ?case by (simp add: digits_val_def)
next
  case (snoc c s)
  then have ih: "0 \<le> digits_val s" "digits_val s < 10 ^ length s" and c: "is_digit c"
    by simp_all
  from ih(2) have "digits_val s + 1 \<le> 10 ^ length s"
    by simp
  then have "10 * (digits_val s + 1) \<le> 10 * 10 ^ length s"
    by (rule mult_left_mono) simp
  with ih(1) digit_val_range [OF c] show ?case
    by (simp add: digits_val_snoc)
qed

lemma py_int_digits:
  assumes ne: "s \<noteq> []" and ds: "list_all is_digit s"
  shows "py_int s = Inr (digits_val s)"
proof -
  have el: "is_digit c" if "c \<in> set s" for c
    using ds that by (simp add: list_all_iff)
  have st: "strip s = s"
    by (rule strip_digits) (rule el)
  from ne have "hd s \<in> set s" by simp
  then have "is_digit (hd s)" by (rule el)
  then have hd: "hd s \<noteq> CHR ''-''" "hd s \<noteq> CHR ''+''"
    using is_digit_not_separator by blast+
  show ?thesis
    unfolding py_int_def st Let_def
    using ne hd ds by simp
qed

lemma strptime_fraction:
  assumes v: "valid_datetime dt" and ne: "f \<noteq> []" and len: "length f \<le> 6"
    and ds: "list_all is_digit f"
  shows "strptime (iso_seconds dt @ CHR ''.'' # f)
     = Inr (dt\<lparr>microsecond := digits_val (f @ replicate (6 - length f) (CHR ''0''))\<rparr>)"
    and "valid_datetime
      (dt\<lparr>microsecond := digits_val (f @ replicate (6 - length f) (CHR ''0''))\<rparr>)"
proof -
  let ?u = "digits_val (f @ replicate (6 - length f) (CHR ''0''))"
  let ?m = "dt\<lparr>microsecond := ?u\<rparr>"
  have z: "is_digit (CHR ''0'')"
    by (simp add: is_digit_def)
  have "list_all is_digit (f @ replicate (6 - length f) (CHR ''0''))"
    using ds z by (auto simp add: list_all_iff)
  from digits_val_bounds [OF this] len have u: "0 \<le> ?u" "?u < 1000000"
    by simp_all
  with v show w: "valid_datetime ?m"
    by (simp add: valid_datetime_def)
  note b = valid_datetime_bounds [OF v]
  have r: "1 \<le> month dt" "month dt \<le> 12" "1 \<le> day dt" "day dt \<le> 31"
    "hour dt \<le> 23" "minute dt \<le> 59" "second dt \<le> 61"
    using v days_in_month_bounds [of "year dt" "month dt"]
    by (simp_all add: valid_datetime_def valid_date_def)
  have ff: "fraction_field f = Some ?u"
    using ne len ds by (simp add: fraction_field_def)
  have "parse_fields (iso_seconds dt @ CHR ''.'' # f) = Some ?m"
    unfolding parse_fields_def split_fields_iso [OF v]
    using b r
    by (simp add: year_field_fixed num_field_fixed day_field_fixed ff)
  then show "strptime (iso_seconds dt @ CHR ''.'' # f) = Inr ?m"
    using w by (simp add: strptime_def)
qed

lemma add_microseconds_fraction:
  assumes v: "valid_datetime dt" and ne: "f \<noteq> []" and len: "length f \<le> 6"
    and ds: "list_all is_digit f"
  shows "add_microseconds (iso_seconds dt @ CHR ''.'' # f) delta =
     (if 0 \<le> digits_val f + delta \<and> digits_val f + delta < 1000000
      then Inr (iso_micro (dt\<lparr>microsecond := digits_val f + delta\<rparr>))
      else case datetime_add
                  (dt\<lparr>microsecond := digits_val (f @ replicate (6 - length f) (CHR ''0''))\<rparr>)
                  delta of
             Inl e \<Rightarrow> Inl e
           | Inr moved \<Rightarrow> Inr (iso_micro moved))"
proof -
  let ?m = "dt\<lparr>microsecond := digits_val (f @ replicate (6 - length f) (CHR ''0''))\<rparr>"
  note sp = strptime_fraction [OF v ne len ds]
  have pt: "partition_str (CHR ''.'') (iso_seconds dt @ CHR ''.'' # f)
      = (iso_seconds dt, ''.'', f)"
    by (rule partition_str_found) (rule iso_seconds_no_dot [OF v])
  have pad: "(case datetime_add ?m delta of
         Inl e \<Rightarrow> Inl e
       | Inr moved \<Rightarrow>
           Inr (if CHR ''.'' \<in> set (isoformat moved) then isoformat moved
                else isoformat moved @ ''.000000''))
     = (case datetime_add ?m delta of Inl e \<Rightarrow> Inl e | Inr moved \<Rightarrow> Inr (iso_micro moved))"
  proof (cases "datetime_add ?m delta")
    case (Inl e)
    then show ?thesis by simp
  next
    case (Inr moved)
    with datetime_add_result [OF sp(2), of delta] have "valid_datetime moved"
      by simp
    from isoformat_padded [OF this] Inr show ?thesis
      by simp
  qed
  have "add_microseconds (iso_seconds dt @ CHR ''.'' # f) delta =
     (if 0 \<le> digits_val f + delta \<and> digits_val f + delta < 1000000
      then Inr (iso_micro (dt\<lparr>microsecond := digits_val f + delta\<rparr>))
      else case datetime_add ?m delta of
             Inl e \<Rightarrow> Inl e
           | Inr moved \<Rightarrow>
               Inr (if CHR ''.'' \<in> set (isoformat moved) then isoformat moved
                    else isoformat moved @ ''.000000''))"
    unfolding add_microseconds_def pt
    using ne by (simp add: py_int_digits [OF ne ds] sp(1) iso_micro_update fmt_d_def Let_def
        split: sum.splits)
  then show ?thesis
    unfolding pad .
qed

lemma add_microseconds_fraction_shape:
  assumes v: "valid_datetime dt" and ne: "f \<noteq> []" and len: "length f \<le> 6"
    and ds: "list_all is_digit f"
  shows "case add_microseconds (iso_seconds dt @ CHR ''.'' # f) delta of
      Inl e \<Rightarrow> e = OverflowError
    | Inr r \<Rightarrow> \<exists>moved. valid_datetime moved \<and> r = iso_micro moved"
proof (cases "0 \<le> digits_val f + delta \<and> digits_val f + delta < 1000000")
  case True
  then have "valid_datetime (dt\<lparr>microsecond := digits_val f + delta\<rparr>)"
    using v by (simp add: valid_datetime_def)
  with True show ?thesis
    unfolding add_microseconds_fraction [OF v ne len ds] by auto
next
  case False
  let ?m = "dt\<lparr>microsecond := digits_val (f @ replicate (6 - length f) (CHR ''0''))\<rparr>"
  note sp = strptime_fraction [OF v ne len ds]
  show ?thesis
  proof (cases "datetime_add ?m delta")
    case (Inl e)
    with datetime_add_result [OF sp(2), of delta] have "e = OverflowError"
      by simp
    with Inl False show ?thesis
      unfolding add_microseconds_fraction [OF v ne len ds] by auto
  next
    case (Inr moved)
    with datetime_add_result [OF sp(2), of delta] have "valid_datetime moved"
      by simp
    with Inr False show ?thesis
      unfolding add_microseconds_fraction [OF v ne len ds] by auto
  qed
qed

lemma add_microseconds_no_fraction_any:
  assumes v: "valid_datetime dt"
  shows "add_microseconds (iso_seconds dt) delta
     = add_microseconds (iso_micro (dt\<lparr>microsecond := 0\<rparr>)) delta"
proof -
  have w: "valid_datetime (dt\<lparr>microsecond := 0\<rparr>)"
    using v by (simp add: valid_datetime_def)
  have "iso_seconds (dt\<lparr>microsecond := 0\<rparr>) = iso_seconds dt"
    by (simp add: iso_seconds_def)
  with add_microseconds_no_fraction [OF w, of delta] show ?thesis
    by simp
qed

lemma ex_fraction_inputs:
  "iso_seconds \<lparr>year = 2013, month = 4, day = 1, hour = 0, minute = 0, second = 1,
      microsecond = 0\<rparr> @ ''.'' @ ''5'' = ''2013-04-01T00:00:01.5''"
  "iso_micro \<lparr>year = 2013, month = 4, day = 1, hour = 0, minute = 0, second = 1,
      microsecond = 6\<rparr> = ''2013-04-01T00:00:01.000006''"
  "add_microseconds ''2013-04-01T00:00:01.5'' 1 = Inr ''2013-04-01T00:00:01.000006''"
  by code_simp+

text \<open>
  Claim C6. The claim says that the offset operation always returns a timestamp with a
  six-digit fraction. At the last instant of year 9999 the carry leaves the range of
  \<^verbatim>\<open>datetime\<close> and the operation raises \<^verbatim>\<open>OverflowError\<close>; on a fraction of seven digits that
  carries, \<^verbatim>\<open>strptime\<close> rejects the input and the operation raises \<^verbatim>\<open>ValueError\<close>:
\<close>

theorem add_microseconds_well_formed_counterexample:
  "add_microseconds ''9999-12-31T23:59:59.999999'' 1 = Inl OverflowError
   \<and> add_microseconds ''2013-04-01T00:00:01.9999999'' 1 = Inl ValueError"
  by code_simp

text \<open>
  Claim C6, amended. The input is a timestamp \<^verbatim>\<open>YYYY-MM-DDTHH:MM:SS\<close> of a valid date and time,
  with a fraction of six digits (\<open>iso_micro dt\<close>), without a fraction (\<open>iso_seconds dt\<close>), or
  with a fraction \<open>frac\<close> of one to six digits. In all three cases the offset operation
  returns a timestamp with a fraction of exactly six digits or raises \<^verbatim>\<open>OverflowError\<close>. With a
  six-digit fraction the result is the timestamp of the instant moved by \<open>delta\<close> microseconds,
  and \<^verbatim>\<open>OverflowError\<close> is raised only when that instant lies outside years 1 to 9999. A
  timestamp without a fraction is treated as the one with the fraction \<^verbatim>\<open>000000\<close>. Adding one
  microsecond to a timestamp with the fraction \<^verbatim>\<open>999999\<close> resets the fraction and carries into
  the seconds and higher fields, unless the timestamp is the last instant of year 9999; with a
  second below 59 the carry increments the second. The gap timestamp after
  \<^verbatim>\<open>2013-04-01T00:00:01.123456\<close> is \<^verbatim>\<open>2013-04-01T00:00:01.123457\<close>.
\<close>

theorem add_microseconds_well_formed:
  assumes v: "valid_datetime dt"
  shows "(case add_microseconds (iso_micro dt) delta of
            Inl e \<Rightarrow> e = OverflowError
              \<and> (to_microseconds dt + delta < to_microseconds datetime_min
                  \<or> to_microseconds datetime_max < to_microseconds dt + delta)
          | Inr r \<Rightarrow> \<exists>moved. valid_datetime moved
              \<and> to_microseconds moved = to_microseconds dt + delta
              \<and> r = iso_micro moved \<and> length r = 26
              \<and> partition_str (CHR ''.'') r
                  = (iso_seconds moved, ''.'', fixed_digits 6 (microsecond moved)))
    \<and> add_microseconds (iso_seconds dt) delta
        = add_microseconds (iso_micro (dt\<lparr>microsecond := 0\<rparr>)) delta
    \<and> (frac \<noteq> [] \<and> length frac \<le> 6 \<and> list_all is_digit frac \<longrightarrow>
         (case add_microseconds (iso_seconds dt @ ''.'' @ frac) delta of
            Inl e \<Rightarrow> e = OverflowError
          | Inr r \<Rightarrow> \<exists>moved. valid_datetime moved \<and> r = iso_micro moved \<and> length r = 26
              \<and> partition_str (CHR ''.'') r
                  = (iso_seconds moved, ''.'', fixed_digits 6 (microsecond moved))))
    \<and> (microsecond dt = 999999 \<and> second dt < 59 \<longrightarrow>
          add_microseconds (iso_micro dt) 1
            = Inr (iso_micro (dt\<lparr>second := second dt + 1, microsecond := 0\<rparr>)))
    \<and> (microsecond dt = 999999 \<and> dt \<noteq> datetime_max \<longrightarrow>
          (\<exists>moved. add_microseconds (iso_micro dt) 1 = Inr (iso_micro moved)
             \<and> microsecond moved = 0
             \<and> to_microseconds moved = to_microseconds dt + 1))
    \<and> get_fake_timestamp (Some ''2013-04-01T00:00:01.123456'') None
        = Inr ''2013-04-01T00:00:01.123457''"
proof (intro conjI impI)
  show "case add_microseconds (iso_micro dt) delta of
            Inl e \<Rightarrow> e = OverflowError
              \<and> (to_microseconds dt + delta < to_microseconds datetime_min
                  \<or> to_microseconds datetime_max < to_microseconds dt + delta)
          | Inr r \<Rightarrow> \<exists>moved. valid_datetime moved
              \<and> to_microseconds moved = to_microseconds dt + delta
              \<and> r = iso_micro moved \<and> length r = 26
              \<and> partition_str (CHR ''.'') r
                  = (iso_seconds moved, ''.'', fixed_digits 6 (microsecond moved))"
  proof (cases "datetime_add dt delta")
    case (Inl e)
    with datetime_add_result [OF v, of delta] show ?thesis
      by (simp add: add_microseconds_is_datetime_add [OF v])
  next
    case (Inr m)
    with datetime_add_result [OF v, of delta]
    have m: "valid_datetime m" "to_microseconds m = to_microseconds dt + delta"
      by simp_all
    have "\<exists>moved. valid_datetime moved
        \<and> to_microseconds moved = to_microseconds dt + delta
        \<and> iso_micro m = iso_micro moved \<and> length (iso_micro m) = 26
        \<and> partition_str (CHR ''.'') (iso_micro m)
            = (iso_seconds moved, ''.'', fixed_digits 6 (microsecond moved))"
      using m length_iso_micro [OF m(1)] partition_iso_micro [OF m(1)] by blast
    with Inr show ?thesis
      by (simp add: add_microseconds_is_datetime_add [OF v])
  qed
next
  show "add_microseconds (iso_seconds dt) delta
      = add_microseconds (iso_micro (dt\<lparr>microsecond := 0\<rparr>)) delta"
    using v by (rule add_microseconds_no_fraction_any)
next
  assume f: "frac \<noteq> [] \<and> length frac \<le> 6 \<and> list_all is_digit frac"
  let ?s = "iso_seconds dt @ ''.'' @ frac"
  have sh: "case add_microseconds ?s delta of
      Inl e \<Rightarrow> e = OverflowError
    | Inr r \<Rightarrow> \<exists>moved. valid_datetime moved \<and> r = iso_micro moved"
    using add_microseconds_fraction_shape [OF v, of frac delta] f by simp
  show "case add_microseconds ?s delta of
      Inl e \<Rightarrow> e = OverflowError
    | Inr r \<Rightarrow> \<exists>moved. valid_datetime moved \<and> r = iso_micro moved \<and> length r = 26
        \<and> partition_str (CHR ''.'') r
            = (iso_seconds moved, ''.'', fixed_digits 6 (microsecond moved))"
  proof (cases "add_microseconds ?s delta")
    case (Inl e)
    with sh show ?thesis by simp
  next
    case (Inr r)
    with sh obtain m where m: "valid_datetime m" "r = iso_micro m"
      by auto
    from m length_iso_micro [OF m(1)] partition_iso_micro [OF m(1)]
    have "\<exists>moved. valid_datetime moved \<and> r = iso_micro moved \<and> length r = 26
        \<and> partition_str (CHR ''.'') r
            = (iso_seconds moved, ''.'', fixed_digits 6 (microsecond moved))"
      by blast
    with Inr show ?thesis by simp
  qed
next
  assume c: "microsecond dt = 999999 \<and> second dt < 59"
  let ?m = "dt\<lparr>second := second dt + 1, microsecond := 0\<rparr>"
  have w: "valid_datetime ?m"
    using v c by (simp add: valid_datetime_def)
  have "to_microseconds ?m = to_microseconds dt + 1"
    using c by (simp add: to_microseconds_def)
  with v w have "datetime_add dt 1 = Inr ?m"
    by (rule datetime_add_in_range)
  then show "add_microseconds (iso_micro dt) 1 = Inr (iso_micro ?m)"
    by (simp add: add_microseconds_is_datetime_add [OF v])
next
  assume c: "microsecond dt = 999999 \<and> dt \<noteq> datetime_max"
  then have "dt \<noteq> datetime_max"
    by simp
  from succ_exists [OF v this] obtain m where m: "datetime_add dt 1 = Inr m" "valid_datetime m"
    "to_microseconds m = to_microseconds dt + 1" .
  have "to_microseconds m mod 1000000 = (to_microseconds dt mod 1000000 + 1) mod 1000000"
    unfolding m(3) by (simp add: mod_simps)
  then have "microsecond m = 0"
    using c by (simp add: to_microseconds_fraction [OF v] to_microseconds_fraction [OF m(2)])
  moreover have "add_microseconds (iso_micro dt) 1 = Inr (iso_micro m)"
    using m(1) by (simp add: add_microseconds_is_datetime_add [OF v])
  ultimately show "\<exists>moved. add_microseconds (iso_micro dt) 1 = Inr (iso_micro moved)
      \<and> microsecond moved = 0 \<and> to_microseconds moved = to_microseconds dt + 1"
    using m(3) by blast
next
  show "get_fake_timestamp (Some ''2013-04-01T00:00:01.123456'') None
      = Inr ''2013-04-01T00:00:01.123457''"
    by (simp add: get_fake_timestamp_after ex_offsets)
qed

theorem add_microseconds_well_formed_witness:
  "valid_datetime \<lparr>year = 2013, month = 4, day = 1, hour = 0, minute = 0, second = 1,
      microsecond = 999999\<rparr>
   \<and> add_microseconds ''2013-04-01T00:00:01.999999'' 1 = Inr ''2013-04-01T00:00:02.000000''
   \<and> add_microseconds ''2013-04-01T00:00:01'' 5 = add_microseconds ''2013-04-01T00:00:01.000000'' 5
   \<and> (\<exists>moved. add_microseconds ''2013-04-01T00:00:01.999999'' 1 = Inr (iso_micro moved)
         \<and> microsecond moved = 0)
   \<and> (\<exists>moved. valid_datetime moved \<and> ''2013-04-01T00:00:01.000006'' = iso_micro moved)"
proof -
  let ?a = "\<lparr>year = 2013, month = 4, day = 1, hour = 0, minute = 0, second = 1,
      microsecond = 999999\<rparr>"
  let ?z = "\<lparr>year = 2013, month = 4, day = 1, hour = 0, minute = 0, second = 1,
      microsecond = 0\<rparr>"
  have va: "valid_datetime ?a" and vz: "valid_datetime ?z"
    by (simp_all add: ex_valid)
  have fr: "''5'' \<noteq> [] \<and> length ''5'' \<le> 6 \<and> list_all is_digit ''5''"
    by (simp add: is_digit_def)
  have "add_microseconds ''2013-04-01T00:00:01.999999'' 1 = Inr ''2013-04-01T00:00:02.000000''"
    using add_microseconds_well_formed [OF va, THEN conjunct2, THEN conjunct2, THEN conjunct2,
        THEN conjunct1]
    by (simp add: ex_datetimes)
  moreover have "add_microseconds ''2013-04-01T00:00:01'' 5
      = add_microseconds ''2013-04-01T00:00:01.000000'' 5"
    using add_microseconds_well_formed [OF vz, THEN conjunct2, THEN conjunct1, of 5]
    by (simp add: ex_datetimes)
  moreover have "\<exists>moved. add_microseconds ''2013-04-01T00:00:01.999999'' 1
      = Inr (iso_micro moved) \<and> microsecond moved = 0"
    using add_microseconds_well_formed [OF va, THEN conjunct2, THEN conjunct2, THEN conjunct2,
        THEN conjunct2, THEN conjunct1]
    by (auto simp add: ex_datetimes datetime_max_def)
  moreover have "\<exists>moved. valid_datetime moved \<and> ''2013-04-01T00:00:01.000006'' = iso_micro moved"
    using add_microseconds_well_formed [OF vz, THEN conjunct2, THEN conjunct2, THEN conjunct1,
        THEN mp, OF fr, of 1]
    unfolding ex_fraction_inputs by auto
  ultimately show ?thesis
    using va by simp
qed

section \<open>Transitions placed at the gap timestamp\<close>

lemma make_event_fields:
  "timestamp (make_event (t, k, act, cr)) = Some t"
  "event_type (make_event (t, k, act, cr)) = k"
  "is_active (make_event (t, k, act, cr)) = act"
  "created (make_event (t, k, act, cr)) = cr"
  by (simp_all add: make_event_def)

lemma ex_validation_reasons:
  "get_transition_string (make_event (p, VALIDATED, Some False, x))
     (make_event (q, VALIDATED, Some True, y)) = ''validate(inactive) => validate(active)''"
  "get_transition_string (make_event (p, VALIDATED, Some True, x))
     (make_event (q, VALIDATED, Some False, y)) = ''validate(active) => validate(inactive)''"
  "get_transition_string initial_state (make_event (q, VALIDATED, Some False, y))
     = ''start => validate(inactive)''"
  by (simp_all add: get_transition_string_def get_state_string_def STATE_MAP_def make_event_def
      truthy_bool_def initial_state_def event_type_distinct)

lemma ex_repeat_reasons:
  "get_transition_string (make_event (p, ACTIVATED, x, y)) (make_event (q, ACTIVATED, z, w))
     = ''activate => activate''"
  "get_transition_string (make_event (p, DEACTIVATED, x, y)) (make_event (q, DEACTIVATED, z, w))
     = ''deactivate => deactivate''"
  by (simp_all add: get_transition_string_def get_state_string_def STATE_MAP_def make_event_def
      event_type_distinct)

lemma ex_range_end:
  "add_microseconds ''9999-12-31T23:59:59.999999'' 1 = Inl OverflowError"
  "add_microseconds ''9999-12-31T23:59:59.999999'' (- 1) = Inr ''9999-12-31T23:59:59.999998''"
  by code_simp+


lemma check_transition_raises:
  "get_fake_timestamp (timestamp prev_event) (timestamp curr_event) = Inl e \<Longrightarrow>
   check_transition self prev_event curr_event = Inl e"
  by (simp add: check_transition_def)

lemma gap_after_well_formed:
  assumes "valid_datetime a" and "a \<noteq> datetime_max"
  shows "\<exists>m. get_fake_timestamp (Some (iso_micro a)) before_bound = Inr (iso_micro m)
     \<and> valid_datetime m \<and> to_microseconds m = to_microseconds a + 1"
  using gap_after [OF assms, of before_bound] by blast

subsection \<open>Two validations in a row\<close>




subsection \<open>An inactive validation next to the sentinel\<close>

text \<open>
  Claim C2. The claim says that the Deactivated event lies one microsecond after the creation
  timestamp. For a validation without a \<open>created\<close> value it lies one microsecond before the
  event timestamp; and for a creation timestamp at the last instant of year 9999 the gap
  timestamp raises \<^verbatim>\<open>OverflowError\<close> and no event is returned:
\<close>

theorem validated_inactive_after_sentinel_counterexample:
  "map_sum id fst (check_transition (ex_validator True) initial_state
      (make_event (''2013-09-01T00:00:01.123456'', VALIDATED, Some False, None)))
    = Inr (Some [(None, ACTIVATED, ''start => validate(inactive)'',
                  None, Some ''2013-09-01T00:00:01.123456''),
                 (Some ''2013-09-01T00:00:01.123455'', DEACTIVATED,
                  ''start => validate(inactive)'',
                  None, Some ''2013-09-01T00:00:01.123456'')])
   \<and> check_transition (ex_validator True) initial_state
      (make_event (''9999-12-31T23:59:59.999999'', VALIDATED, Some False,
         Some ''9999-12-31T23:59:59.999999''))
    = Inl OverflowError"
  by (simp add: check_transition_def check_validated_def get_fake_timestamp_after
      get_fake_timestamp_before Let_def ex_range_end ex_offsets ex_validator_fields
      emit_synthesized_def make_event_def truthy_bool_def truthy_str_def log_error_fields
      initial_state_def event_type_distinct
      ex_validation_reasons [unfolded make_event_def initial_state_def, simplified])

text \<open>
  Claim C2, amended. A validation with a false \<open>is_active\<close> flag and a non-empty \<open>created\<close>
  value \<open>ct\<close> stands next to the sentinel, and the pair is not suppressed (\<open>generate_before\<close> is
  set, or the creation timestamp is not below \<open>lower_bound_date_string\<close>). When the gap
  timestamp before the event timestamp, which is computed first, or the gap timestamp of the
  creation timestamp and the event timestamp raises an exception, \<open>check_transition\<close> raises
  the same exception. When both return, \<open>check_transition\<close> returns exactly two events in
  this order: an Activated event whose timestamp is the creation timestamp, then a
  Deactivated event at the gap timestamp \<open>t2\<close> of the creation timestamp and the event
  timestamp; both carry the bounds (creation timestamp, event timestamp). That gap timestamp
  is the offset of the creation timestamp by one microsecond; for a well-formed creation
  timestamp other than the last instant of year 9999 it is the well-formed timestamp of the
  instant one microsecond later.
\<close>

theorem validated_inactive_after_sentinel:
  assumes "event_type curr_event = VALIDATED"
    and "\<not> truthy_bool (is_active curr_event)"
    and "generate_before self \<or> \<not> created curr_event < Some (lower_bound_date_string self)"
    and "created curr_event = Some ct" and "ct \<noteq> []"
  shows "(get_fake_timestamp None (timestamp curr_event) = Inl e \<longrightarrow>
            check_transition self initial_state curr_event = Inl e)
    \<and> (get_fake_timestamp None (timestamp curr_event) = Inr t0
          \<and> get_fake_timestamp (created curr_event) (timestamp curr_event) = Inl e \<longrightarrow>
            check_transition self initial_state curr_event = Inl e)
    \<and> (get_fake_timestamp None (timestamp curr_event) = Inr t0
          \<and> get_fake_timestamp (created curr_event) (timestamp curr_event) = Inr t2 \<longrightarrow>
         (\<exists>s. check_transition self initial_state curr_event =
            Inr (Some [generate_output self (Some ct) ACTIVATED
                         (get_transition_string initial_state curr_event)
                         (Some ct) (timestamp curr_event),
                       generate_output self (Some t2) DEACTIVATED
                         (get_transition_string initial_state curr_event)
                         (Some ct) (timestamp curr_event)], s)))
    \<and> get_fake_timestamp (created curr_event) (timestamp curr_event) = add_microseconds ct 1
    \<and> (valid_datetime a \<and> ct = iso_micro a \<and> a \<noteq> datetime_max \<longrightarrow>
         (\<exists>m. get_fake_timestamp (created curr_event) (timestamp curr_event)
                 = Inr (iso_micro m)
            \<and> valid_datetime m \<and> to_microseconds m = to_microseconds a + 1))"
proof (intro conjI impI)
  assume "get_fake_timestamp None (timestamp curr_event) = Inl e"
  then show "check_transition self initial_state curr_event = Inl e"
    by (simp add: check_transition_def initial_state_def)
next
  assume "get_fake_timestamp None (timestamp curr_event) = Inr t0
      \<and> get_fake_timestamp (created curr_event) (timestamp curr_event) = Inl e"
  then show "check_transition self initial_state curr_event = Inl e"
    using assms
    by (auto simp add: check_transition_def check_validated_def Let_def log_error_fields
        initial_state_def event_type_distinct)
next
  assume "get_fake_timestamp None (timestamp curr_event) = Inr t0
      \<and> get_fake_timestamp (created curr_event) (timestamp curr_event) = Inr t2"
  then show "\<exists>s. check_transition self initial_state curr_event =
      Inr (Some [generate_output self (Some ct) ACTIVATED
                   (get_transition_string initial_state curr_event)
                   (Some ct) (timestamp curr_event),
                 generate_output self (Some t2) DEACTIVATED
                   (get_transition_string initial_state curr_event)
                   (Some ct) (timestamp curr_event)], s)"
    using assms
    by (auto simp add: check_transition_def check_validated_def Let_def log_error_fields
        initial_state_def event_type_distinct)
next
  show "get_fake_timestamp (created curr_event) (timestamp curr_event) = add_microseconds ct 1"
    using assms by (simp add: get_fake_timestamp_after)
next
  assume "valid_datetime a \<and> ct = iso_micro a \<and> a \<noteq> datetime_max"
  then show "\<exists>m. get_fake_timestamp (created curr_event) (timestamp curr_event)
        = Inr (iso_micro m)
      \<and> valid_datetime m \<and> to_microseconds m = to_microseconds a + 1"
    using gap_after_well_formed [of a "timestamp curr_event"] assms by simp
qed

theorem validated_inactive_after_sentinel_witness:
  "(\<exists>s. check_transition (ex_validator True) initial_state
      (make_event (''2013-09-01T00:00:01.123456'', VALIDATED, Some False,
         Some ''2013-04-01T00:00:01.123456''))
    = Inr (Some [(Some ''2013-04-01T00:00:01.123456'', ACTIVATED, ''start => validate(inactive)'',
                  Some ''2013-04-01T00:00:01.123456'', Some ''2013-09-01T00:00:01.123456''),
                 (Some ''2013-04-01T00:00:01.123457'', DEACTIVATED,
                  ''start => validate(inactive)'',
                  Some ''2013-04-01T00:00:01.123456'', Some ''2013-09-01T00:00:01.123456'')], s))
   \<and> check_transition (ex_validator True) initial_state
      (make_event (''9999-12-31T23:59:59.999999'', VALIDATED, Some False,
         Some ''9999-12-31T23:59:59.999999''))
    = Inl OverflowError
   \<and> (\<exists>m. get_fake_timestamp (Some ''2013-04-01T00:00:01.123456'')
              (Some ''2013-09-01T00:00:01.123456'') = Inr (iso_micro m)
         \<and> valid_datetime m
         \<and> to_microseconds m = to_microseconds \<lparr>year = 2013, month = 4, day = 1, hour = 0,
              minute = 0, second = 1, microsecond = 123456\<rparr> + 1)"
proof -
  let ?ct = "''2013-04-01T00:00:01.123456''"
  let ?q = "''2013-09-01T00:00:01.123456''"
  let ?x = "''9999-12-31T23:59:59.999999''"
  let ?e = "make_event (?q, VALIDATED, Some False, Some ?ct)"
  let ?f = "make_event (?x, VALIDATED, Some False, Some ?x)"
  let ?a = "\<lparr>year = 2013, month = 4, day = 1, hour = 0, minute = 0, second = 1,
      microsecond = 123456\<rparr>"
  have va: "valid_datetime ?a"
    by (simp add: ex_valid)
  have na: "?a \<noteq> datetime_max"
    by (simp add: datetime_max_def)
  have ty: "event_type (make_event (t, VALIDATED, act, cr)) = VALIDATED"
    and ia: "\<not> truthy_bool (is_active (make_event (t, k, Some False, cr)))"
    and gb: "generate_before (ex_validator True)
        \<or> \<not> created (make_event (t, k, act, cr))
              < Some (lower_bound_date_string (ex_validator True))"
    and cr: "created (make_event (t, k, act, Some c)) = Some c" for t k act cr c
    by (simp_all add: make_event_fields truthy_bool_def ex_validator_fields)
  have ne: "?ct \<noteq> []" "?x \<noteq> []"
    by simp_all
  have g0: "get_fake_timestamp None (Some ?q) = Inr ''2013-09-01T00:00:01.123455''"
    and g2: "get_fake_timestamp (Some ?ct) (Some ?q) = Inr ''2013-04-01T00:00:01.123457''"
    and x0: "get_fake_timestamp None (Some ?x) = Inr ''9999-12-31T23:59:59.999998''"
    and x2: "get_fake_timestamp (Some ?x) (Some ?x) = Inl OverflowError"
    by (simp_all add: get_fake_timestamp_after get_fake_timestamp_before ex_offsets
        ex_range_end)
  note t = validated_inactive_after_sentinel [where curr_event = ?e
      and self = "ex_validator True", OF ty ia gb cr ne(1)]
  note u = validated_inactive_after_sentinel [where curr_event = ?f
      and self = "ex_validator True", OF ty ia gb cr ne(2)]
  have a: "\<exists>s. check_transition (ex_validator True) initial_state ?e
    = Inr (Some [(Some ?ct, ACTIVATED, ''start => validate(inactive)'', Some ?ct, Some ?q),
                 (Some ''2013-04-01T00:00:01.123457'', DEACTIVATED,
                  ''start => validate(inactive)'', Some ?ct, Some ?q)], s)"
    using t [THEN conjunct2, THEN conjunct2, THEN conjunct1, THEN mp]
    by (simp add: make_event_fields g0 g2 ex_validator_fields emit_synthesized_def
        ex_validation_reasons)
  have b: "check_transition (ex_validator True) initial_state ?f = Inl OverflowError"
    using u [THEN conjunct2, THEN conjunct1, THEN mp]
    by (simp add: make_event_fields x0 x2)
  have c: "\<exists>m. get_fake_timestamp (Some ?ct) (Some ?q) = Inr (iso_micro m)
      \<and> valid_datetime m \<and> to_microseconds m = to_microseconds ?a + 1"
    using validated_inactive_after_sentinel [where curr_event = ?e
        and self = "ex_validator True" and a = ?a, OF ty ia gb cr ne(1),
        THEN conjunct2, THEN conjunct2, THEN conjunct2, THEN conjunct2, THEN mp] va na
    by (simp add: make_event_fields ex_datetimes)
  from a b c show ?thesis
    by blast
qed

subsection \<open>Two activations or two deactivations in a row\<close>

text \<open>
  Claim C4. The claim says that the synthesized timestamp always exists and lies strictly
  between the two event timestamps. For two activations one microsecond apart the
  synthesized deactivation carries the timestamp of the newer activation; and for two
  activations at the last instant of year 9999 the gap timestamp raises \<^verbatim>\<open>OverflowError\<close> and
  no event is returned:
\<close>

theorem repeated_event_repair_counterexample:
  "check_transition (ex_validator True)
      (make_event (''2013-04-01T00:00:01.123456'', ACTIVATED, None, None))
      (make_event (''2013-04-01T00:00:01.123457'', ACTIVATED, None, None))
    = Inr (Some [(Some ''2013-04-01T00:00:01.123457'', DEACTIVATED, ''activate => activate'',
                  Some ''2013-04-01T00:00:01.123456'', Some ''2013-04-01T00:00:01.123457'')],
           ex_validator True)
   \<and> \<not> ''2013-04-01T00:00:01.123457'' < ''2013-04-01T00:00:01.123457''
   \<and> check_transition (ex_validator True)
      (make_event (''9999-12-31T23:59:59.999999'', ACTIVATED, None, None))
      (make_event (''9999-12-31T23:59:59.999999'', ACTIVATED, None, None))
    = Inl OverflowError"
  by (simp add: check_transition_def check_activated_def get_fake_timestamp_after Let_def
      event_type_distinct ex_offsets ex_range_end ex_validator_fields emit_synthesized_def
      make_event_def ex_repeat_reasons [unfolded make_event_def, simplified])

text \<open>
  Claim C4, amended. When the gap timestamp of the two event timestamps raises an exception,
  \<open>check_transition\<close> raises the same exception. When it returns \<open>ts\<close>, \<open>check_transition\<close>
  returns exactly one Deactivated event for two adjacent Activated events, and exactly one
  Activated event for two adjacent Deactivated events; the event carries the timestamp \<open>ts\<close>
  and the two event timestamps as bounds, and the object is unchanged. For a non-empty older
  timestamp the gap timestamp is the offset of the older timestamp by one microsecond. When
  both event timestamps are well-formed and the older one is not the last instant of year
  9999, the gap timestamp is the well-formed timestamp of the instant one microsecond after
  the older one; it is strictly greater than the older timestamp, and it is strictly less
  than the newer timestamp exactly when the two instants are at least two microseconds apart.
\<close>

theorem repeated_event_repair:
  "(get_fake_timestamp (timestamp prev_event) (timestamp curr_event) = Inl e \<longrightarrow>
      check_transition self prev_event curr_event = Inl e)
    \<and> (get_fake_timestamp (timestamp prev_event) (timestamp curr_event) = Inr ts \<longrightarrow>
         (event_type curr_event = ACTIVATED \<and> event_type prev_event = ACTIVATED \<longrightarrow>
            check_transition self prev_event curr_event =
              Inr (Some [generate_output self (Some ts) DEACTIVATED
                           (get_transition_string prev_event curr_event)
                           (timestamp prev_event) (timestamp curr_event)], self))
       \<and> (event_type curr_event = DEACTIVATED \<and> event_type prev_event = DEACTIVATED \<longrightarrow>
            check_transition self prev_event curr_event =
              Inr (Some [generate_output self (Some ts) ACTIVATED
                           (get_transition_string prev_event curr_event)
                           (timestamp prev_event) (timestamp curr_event)], self)))
    \<and> (timestamp prev_event = Some p \<and> p \<noteq> [] \<longrightarrow>
         get_fake_timestamp (timestamp prev_event) (timestamp curr_event)
           = add_microseconds p 1)
    \<and> (valid_datetime a \<and> valid_datetime b \<and> timestamp prev_event = Some (iso_micro a)
          \<and> timestamp curr_event = Some (iso_micro b) \<and> a \<noteq> datetime_max \<longrightarrow>
         (\<exists>m. get_fake_timestamp (timestamp prev_event) (timestamp curr_event)
                 = Inr (iso_micro m)
            \<and> valid_datetime m \<and> to_microseconds m = to_microseconds a + 1
            \<and> iso_micro a < iso_micro m
            \<and> (iso_micro m < iso_micro b \<longleftrightarrow> to_microseconds a + 2 \<le> to_microseconds b)))"
proof (intro conjI impI)
  assume "get_fake_timestamp (timestamp prev_event) (timestamp curr_event) = Inl e"
  then show "check_transition self prev_event curr_event = Inl e"
    by (rule check_transition_raises)
next
  assume "get_fake_timestamp (timestamp prev_event) (timestamp curr_event) = Inr ts"
    and "event_type curr_event = ACTIVATED \<and> event_type prev_event = ACTIVATED"
  then show "check_transition self prev_event curr_event =
      Inr (Some [generate_output self (Some ts) DEACTIVATED
                   (get_transition_string prev_event curr_event)
                   (timestamp prev_event) (timestamp curr_event)], self)"
    by (simp add: check_transition_def check_activated_def Let_def event_type_distinct)
next
  assume "get_fake_timestamp (timestamp prev_event) (timestamp curr_event) = Inr ts"
    and "event_type curr_event = DEACTIVATED \<and> event_type prev_event = DEACTIVATED"
  then show "check_transition self prev_event curr_event =
      Inr (Some [generate_output self (Some ts) ACTIVATED
                   (get_transition_string prev_event curr_event)
                   (timestamp prev_event) (timestamp curr_event)], self)"
    by (simp add: check_transition_def check_deactivated_def Let_def event_type_distinct)
next
  assume "timestamp prev_event = Some p \<and> p \<noteq> []"
  then show "get_fake_timestamp (timestamp prev_event) (timestamp curr_event)
      = add_microseconds p 1"
    by (simp add: get_fake_timestamp_after)
next
  assume h: "valid_datetime a \<and> valid_datetime b \<and> timestamp prev_event = Some (iso_micro a)
      \<and> timestamp curr_event = Some (iso_micro b) \<and> a \<noteq> datetime_max"
  then have a: "valid_datetime a" and b: "valid_datetime b" and n: "a \<noteq> datetime_max"
    by simp_all
  from gap_after [OF a n, of "timestamp curr_event"] obtain m where
    m: "get_fake_timestamp (Some (iso_micro a)) (timestamp curr_event) = Inr (iso_micro m)"
      "valid_datetime m" "to_microseconds m = to_microseconds a + 1" .
  have "iso_micro a < iso_micro m"
    using m(3) by (simp add: to_microseconds_less_iff [OF a m(2), symmetric])
  moreover have "iso_micro m < iso_micro b \<longleftrightarrow> to_microseconds a + 2 \<le> to_microseconds b"
    using m(3) by (auto simp add: to_microseconds_less_iff [OF m(2) b, symmetric])
  ultimately show "\<exists>m. get_fake_timestamp (timestamp prev_event) (timestamp curr_event)
        = Inr (iso_micro m)
      \<and> valid_datetime m \<and> to_microseconds m = to_microseconds a + 1
      \<and> iso_micro a < iso_micro m
      \<and> (iso_micro m < iso_micro b \<longleftrightarrow> to_microseconds a + 2 \<le> to_microseconds b)"
    using m h by auto
qed

theorem repeated_event_repair_witness:
  "check_transition (ex_validator True)
      (make_event (''2013-04-01T00:00:01.123456'', ACTIVATED, None, None))
      (make_event (''2013-04-01T00:00:01.123458'', ACTIVATED, None, None))
    = Inr (Some [(Some ''2013-04-01T00:00:01.123457'', DEACTIVATED, ''activate => activate'',
                  Some ''2013-04-01T00:00:01.123456'', Some ''2013-04-01T00:00:01.123458'')],
           ex_validator True)
   \<and> check_transition (ex_validator True)
      (make_event (''2013-04-01T00:00:01.123456'', DEACTIVATED, None, None))
      (make_event (''2013-04-01T00:00:01.123458'', DEACTIVATED, None, None))
    = Inr (Some [(Some ''2013-04-01T00:00:01.123457'', ACTIVATED, ''deactivate => deactivate'',
                  Some ''2013-04-01T00:00:01.123456'', Some ''2013-04-01T00:00:01.123458'')],
           ex_validator True)
   \<and> check_transition (ex_validator True)
      (make_event (''9999-12-31T23:59:59.999999'', ACTIVATED, None, None))
      (make_event (''9999-12-31T23:59:59.999999'', ACTIVATED, None, None))
    = Inl OverflowError
   \<and> (\<exists>m. get_fake_timestamp (Some ''2013-04-01T00:00:01.123456'')
              (Some ''2013-04-01T00:00:01.123458'') = Inr (iso_micro m)
         \<and> ''2013-04-01T00:00:01.123456'' < iso_micro m
         \<and> iso_micro m < ''2013-04-01T00:00:01.123458'')"
proof -
  let ?p = "''2013-04-01T00:00:01.123456''"
  let ?q = "''2013-04-01T00:00:01.123458''"
  let ?x = "''9999-12-31T23:59:59.999999''"
  let ?a = "\<lparr>year = 2013, month = 4, day = 1, hour = 0, minute = 0, second = 1,
      microsecond = 123456\<rparr>"
  let ?b = "\<lparr>year = 2013, month = 4, day = 1, hour = 0, minute = 0, second = 1,
      microsecond = 123458\<rparr>"
  have g: "get_fake_timestamp (Some ?p) (Some ?q) = Inr ''2013-04-01T00:00:01.123457''"
    by (simp add: get_fake_timestamp_after ex_offsets)
  have gx: "get_fake_timestamp (Some ?x) (Some ?x) = Inl OverflowError"
    by (simp add: get_fake_timestamp_after ex_range_end)
  have va: "valid_datetime ?a" and vb: "valid_datetime ?b"
    by (simp_all add: ex_valid)
  have na: "?a \<noteq> datetime_max"
    by (simp add: datetime_max_def)
  have gap: "to_microseconds ?a + 2 \<le> to_microseconds ?b"
    by (simp add: to_microseconds_def)
  have "check_transition (ex_validator True) (make_event (?p, ACTIVATED, None, None))
      (make_event (?q, ACTIVATED, None, None))
    = Inr (Some [(Some ''2013-04-01T00:00:01.123457'', DEACTIVATED, ''activate => activate'',
                  Some ?p, Some ?q)], ex_validator True)"
    using repeated_event_repair [where curr_event = "make_event (?q, ACTIVATED, None, None)"
        and prev_event = "make_event (?p, ACTIVATED, None, None)"
        and self = "ex_validator True",
        THEN conjunct2, THEN conjunct1, THEN mp, THEN conjunct1, THEN mp]
    by (simp add: make_event_fields g ex_repeat_reasons ex_validator_fields
        emit_synthesized_def)
  moreover have "check_transition (ex_validator True)
      (make_event (?p, DEACTIVATED, None, None)) (make_event (?q, DEACTIVATED, None, None))
    = Inr (Some [(Some ''2013-04-01T00:00:01.123457'', ACTIVATED, ''deactivate => deactivate'',
                  Some ?p, Some ?q)], ex_validator True)"
    using repeated_event_repair [where curr_event = "make_event (?q, DEACTIVATED, None, None)"
        and prev_event = "make_event (?p, DEACTIVATED, None, None)"
        and self = "ex_validator True",
        THEN conjunct2, THEN conjunct1, THEN mp, THEN conjunct2, THEN mp]
    by (simp add: make_event_fields g ex_repeat_reasons ex_validator_fields
        emit_synthesized_def)
  moreover have "check_transition (ex_validator True)
      (make_event (?x, ACTIVATED, None, None)) (make_event (?x, ACTIVATED, None, None))
    = Inl OverflowError"
    using repeated_event_repair [where curr_event = "make_event (?x, ACTIVATED, None, None)"
        and prev_event = "make_event (?x, ACTIVATED, None, None)"
        and self = "ex_validator True", THEN conjunct1, THEN mp]
    by (simp add: make_event_fields gx)
  moreover have "\<exists>m. get_fake_timestamp (Some ?p) (Some ?q) = Inr (iso_micro m)
      \<and> ?p < iso_micro m \<and> iso_micro m < ?q"
    using repeated_event_repair [where curr_event = "make_event (?q, ACTIVATED, None, None)"
        and prev_event = "make_event (?p, ACTIVATED, None, None)" and a = ?a and b = ?b,
        THEN conjunct2, THEN conjunct2, THEN conjunct2, THEN mp] va vb na gap
    by (auto simp add: make_event_fields ex_datetimes)
  ultimately show ?thesis
    by blast
qed

end
